theory Spec2Isabelle
  imports Complex_Main
begin

section \<open>JavaScript helpers\<close>

text \<open>
  JavaScript numbers are IEEE 754 binary64 values. Counts, indices, timestamps and day
  intervals are whole numbers and are modelled as \<open>nat\<close> or \<open>int\<close>. The arithmetic of the
  scheduler is modelled with the rounding of every operation: \<open>double x\<close> is the binary64
  number nearest to the real \<open>x\<close>, a tie going to the even mantissa. The exponent is not
  bounded here, so overflow to \<open>Infinity\<close> (above \<open>1.7e308\<close>) and gradual underflow (below
  \<open>2.3e-308\<close>) are outside the model. The other modules only compare a score, or a
  quotient of two counts, with a literal; there the numbers are modelled as exact reals.
\<close>

definition round_even :: "real \<Rightarrow> int" where
  "round_even y =
     (let f = \<lfloor>y\<rfloor>; d = y - of_int f
      in if d < 1 / 2 then f else if 1 / 2 < d then f + 1 else if even f then f else f + 1)"

definition double :: "real \<Rightarrow> real" where
  "double x =
     (if x = 0 then 0
      else let e = \<lfloor>log 2 \<bar>x\<bar>\<rfloor>
           in of_int (round_even (x / 2 powi (e - 52))) * 2 powi (e - 52))"

text \<open>
  \<open>Math.round\<close> returns the nearest whole number, a half going upward; on a binary64
  argument the result is exact.
\<close>

definition js_round :: "real \<Rightarrow> int" where
  "js_round x = \<lfloor>x + 1 / 2\<rfloor>"

text \<open>
  The sum and the product of two whole numbers: the binary64 result is again a whole
  number, and the exact one while it stays below \<open>2^53\<close>.
\<close>

definition js_plus :: "int \<Rightarrow> int \<Rightarrow> int" where
  "js_plus a b = \<lfloor>double (of_int a + of_int b)\<rfloor>"

definition js_times :: "int \<Rightarrow> int \<Rightarrow> int" where
  "js_times a b = \<lfloor>double (of_int a * of_int b)\<rfloor>"

text \<open>\<open>xs.slice(0, n)\<close>: a negative \<open>n\<close> counts from the end of the array.\<close>

definition js_slice0 :: "'a list \<Rightarrow> int \<Rightarrow> 'a list" where
  "js_slice0 xs n =
     (if 0 \<le> n then take (nat n) xs else take (length xs - nat (- n)) xs)"

text \<open>\<open>xs.slice(-n)\<close> for a positive \<open>n\<close>: the last \<open>n\<close> elements (all of them when there are fewer).\<close>

definition js_slice_last :: "nat \<Rightarrow> 'a list \<Rightarrow> 'a list" where
  "js_slice_last n xs = drop (length xs - n) xs"

section \<open>SM-2 card scheduler (src/js/ai.js, second module: \<open>SM2\<close>)\<close>

datatype status = New | Learning | Review | Learned

text \<open>The four quality constants \<open>AGAIN: 0, HARD: 1, GOOD: 2, EASY: 3\<close>.\<close>

datatype quality = AGAIN | HARD | GOOD | EASY

fun quality_num :: "quality \<Rightarrow> int" where
  "quality_num AGAIN = 0"
| "quality_num HARD = 1"
| "quality_num GOOD = 2"
| "quality_num EASY = 3"

record card =
  wordId :: string
  status :: status
  easeFactor :: real
  interval :: int
  repetitions :: nat
  lapses :: nat
  learningStep :: nat
  nextReview :: int
  lastReview :: "int option"

definition learningSteps :: "int list" where
  "learningSteps = [1, 10]"

definition graduatingInterval :: int where
  "graduatingInterval = 1"

definition easyInterval :: int where
  "easyInterval = 4"

text \<open>The literals \<open>1.3\<close>, \<open>3.0\<close> and \<open>2.5\<close> as binary64 numbers.\<close>

definition minEaseFactor :: real where
  "minEaseFactor = double (13 / 10)"

definition maxEaseFactor :: real where
  "maxEaseFactor = double 3"

definition defaultEaseFactor :: real where
  "defaultEaseFactor = double (5 / 2)"

text \<open>\<open>Date.now()\<close> is the parameter \<open>now\<close> (milliseconds).\<close>

definition createCard :: "int \<Rightarrow> string \<Rightarrow> card" where
  "createCard now w =
     \<lparr> wordId = w, status = New, easeFactor = defaultEaseFactor, interval = 0,
       repetitions = 0, lapses = 0, learningStep = 0, nextReview = now,
       lastReview = None \<rparr>"

text \<open>
  \<open>this.learningSteps[card.learningStep] || this.learningSteps[0]\<close>: an index past the
  ladder reads \<open>undefined\<close>, and a falsy value falls back to the first step.
\<close>

definition stepOrFirst :: "nat \<Rightarrow> int" where
  "stepOrFirst i =
     (if i < length learningSteps \<and> learningSteps ! i \<noteq> 0 then learningSteps ! i
      else learningSteps ! 0)"

definition processLearning :: "int \<Rightarrow> card \<Rightarrow> quality \<Rightarrow> card" where
  "processLearning now c q =
     (let c1 =
        (case q of
           AGAIN \<Rightarrow> c\<lparr> learningStep := 0,
                      nextReview := js_plus now (js_times (js_times (learningSteps ! 0) 60) 1000) \<rparr>
         | HARD \<Rightarrow> c\<lparr> nextReview :=
                     js_plus now (js_times (js_times (stepOrFirst (learningStep c)) 60) 1000) \<rparr>
         | GOOD \<Rightarrow>
             (let c' = c\<lparr> learningStep := learningStep c + 1 \<rparr>
              in if learningStep c' \<ge> length learningSteps
                 then c'\<lparr> status := Review, interval := graduatingInterval,
                          nextReview := js_plus now (js_times (js_times (js_times
                            (js_times graduatingInterval 24) 60) 60) 1000) \<rparr>
                 else c'\<lparr> nextReview := js_plus now
                          (js_times (js_times (learningSteps ! learningStep c') 60) 1000) \<rparr>)
         | EASY \<Rightarrow> c\<lparr> status := Review, interval := easyInterval,
                     easeFactor := double (easeFactor c + double (15 / 100)),
                     nextReview := js_plus now (js_times (js_times (js_times
                       (js_times easyInterval 24) 60) 60) 1000) \<rparr>)
      in if status c1 \<noteq> New
         then c1\<lparr> status := (if status c1 = Review then Review else Learning) \<rparr>
         else c1)"

text \<open>
  The SM-2 ease update \<open>0.1 - (5 - q) * (0.08 + (5 - q) * 0.02)\<close> for \<open>q = quality + 2\<close>
  on the 2-5 scale. \<open>5 - q\<close> is a whole number; each literal and each product, sum and
  difference is rounded.
\<close>

definition easeDelta :: "quality \<Rightarrow> real" where
  "easeDelta q =
     (let k = of_int (5 - (quality_num q + 2)) :: real
      in double (double (1 / 10) -
           double (k * double (double (8 / 100) + double (k * double (2 / 100))))))"

definition processReview :: "int \<Rightarrow> card \<Rightarrow> quality \<Rightarrow> card" where
  "processReview now c q =
     (if q = AGAIN
      then c\<lparr> lapses := lapses c + 1, status := Learning, learningStep := 0,
              easeFactor := max (double (easeFactor c - double (2 / 10))) minEaseFactor,
              nextReview := js_plus now (js_times (js_times (learningSteps ! 0) 60) 1000) \<rparr>
      else
        (let ef = max minEaseFactor (min maxEaseFactor (double (easeFactor c + easeDelta q)));
             iv = (case q of
                     HARD \<Rightarrow> js_round (double (of_int (interval c) * double (12 / 10)))
                   | GOOD \<Rightarrow> js_round (double (of_int (interval c) * ef))
                   | EASY \<Rightarrow>
                       js_round (double (double (of_int (interval c) * ef) * double (13 / 10)))
                   | AGAIN \<Rightarrow> interval c);
             c1 = c\<lparr> repetitions := repetitions c + 1, easeFactor := ef, interval := iv,
                      nextReview := js_plus now (js_times (js_times (js_times
                        (js_times iv 24) 60) 60) 1000) \<rparr>
         in if iv \<ge> 21 then c1\<lparr> status := Learned \<rparr> else c1))"

definition processAnswer :: "int \<Rightarrow> card \<Rightarrow> quality \<Rightarrow> card" where
  "processAnswer now c q =
     (let c0 = c\<lparr> lastReview := Some now \<rparr>
      in if status c0 = New \<or> status c0 = Learning
         then processLearning now c0 q
         else processReview now c0 q)"

text \<open>
  A run of the scheduler: each answer is a quality together with the clock reading of its
  call, applied left to right.
\<close>

definition answerAll :: "card \<Rightarrow> (quality \<times> int) list \<Rightarrow> card" where
  "answerAll c qs = foldl (\<lambda>c (q, now). processAnswer now c q) c qs"


text \<open>Invariants of the scheduler used in the proofs below.\<close>

definition sm2_inv :: "card \<Rightarrow> bool" where
  "sm2_inv c \<longleftrightarrow>
     minEaseFactor \<le> easeFactor c \<and> easeFactor c \<le> maxEaseFactor \<and> 0 \<le> interval c \<and>
     ((status c = New \<or> status c = Learning) \<longrightarrow> easeFactor c \<le> 45 / 16)"

definition learned_inv :: "card \<Rightarrow> bool" where
  "learned_inv c \<longleftrightarrow>
     0 \<le> interval c \<and>
     (status c = New \<longrightarrow> interval c < 21) \<and>
     (status c = Review \<longrightarrow> interval c < 21) \<and>
     (status c = Learned \<longrightarrow> 21 \<le> interval c)"

section \<open>Review session orchestrator (src/js/vocabulary.js)\<close>

datatype mode = RECEPTIVE | PRODUCTIVE | DEFINITION | SENTENCE | TIMED | SPELLING

text \<open>
  A vocabulary card: the word and its two scheduler records, one per learning mode. The
  fields that only feed rendering (transcription, translation, examples, audio) and the
  spelling and pronunciation trackers are not read by session selection and are left out.
\<close>

record vcard =
  word :: string
  receptive :: card
  productive :: card
  addedAt :: int

definition vocab_createCard :: "int \<Rightarrow> string \<Rightarrow> vcard" where
  "vocab_createCard now w =
     \<lparr> word = w,
       receptive = createCard now (w @ ''_receptive''),
       productive = createCard now (w @ ''_productive''),
       addedAt = now \<rparr>"

record session_result =
  res_word :: string
  res_quality :: quality
  res_mode :: mode
  res_timestamp :: int

record session =
  session_mode :: mode
  session_cards :: "vcard list"
  currentIndex :: nat
  results :: "session_result list"
  startTime :: int

text \<open>\<open>mode === Vocabulary.MODES.RECEPTIVE ? 'receptive' : 'productive'\<close>\<close>

definition modeKey :: "mode \<Rightarrow> vcard \<Rightarrow> card" where
  "modeKey m = (if m = RECEPTIVE then receptive else productive)"

text \<open>\<open>Array.prototype.sort\<close> with the comparator \<open>a - b\<close> on the key is a stable sort.\<close>

definition getDueCards :: "vcard list \<Rightarrow> mode \<Rightarrow> int \<Rightarrow> vcard list" where
  "getDueCards cs m now =
     sort_key (\<lambda>c. nextReview (modeKey m c))
       (filter (\<lambda>c. nextReview (modeKey m c) \<le> now) cs)"

definition getNewCards :: "vcard list \<Rightarrow> int \<Rightarrow> vcard list" where
  "getNewCards cs limit = js_slice0 (filter (\<lambda>c. status (receptive c) = New) cs) limit"

text \<open>
  The Fisher-Yates loop \<open>for (i = length - 1; i > 0; i--)\<close>. The draw
  \<open>Math.floor(Math.random() * (i + 1))\<close> is some index in \<open>0..i\<close>; the parameter
  \<open>rnd\<close> supplies the draw made at position \<open>i\<close>, reduced into that range.
\<close>

fun shuffle_from :: "(nat \<Rightarrow> nat) \<Rightarrow> nat \<Rightarrow> 'a list \<Rightarrow> 'a list" where
  "shuffle_from rnd 0 xs = xs"
| "shuffle_from rnd (Suc i) xs =
     (let j = rnd (Suc i) mod (Suc i + 1)
      in shuffle_from rnd i (xs[Suc i := xs ! j, j := xs ! Suc i]))"

definition shuffleArray :: "(nat \<Rightarrow> nat) \<Rightarrow> 'a list \<Rightarrow> 'a list" where
  "shuffleArray rnd xs = shuffle_from rnd (length xs - 1) xs"

definition startSession :: "(nat \<Rightarrow> nat) \<Rightarrow> vcard list \<Rightarrow> mode \<Rightarrow> int \<Rightarrow> int \<Rightarrow> session" where
  "startSession rnd cs m limit now =
     (let dueCards = getDueCards cs m now;
          newCards = getNewCards cs (limit - min (int (length dueCards)) limit)
      in \<lparr> session_mode = m,
           session_cards = shuffleArray rnd (js_slice0 (js_slice0 dueCards limit @ newCards) limit),
           currentIndex = 0,
           results = [],
           startTime = now \<rparr>)"

section \<open>Topic acquisition state machine (Grammar module, src/unnamed/part_006)\<close>

datatype phase = DISCOVER | UNDERSTAND | NOTICE | PRACTICE | PRODUCE | INPUT_FLOOD | REVIEW

definition PHASE_ORDER :: "phase list" where
  "PHASE_ORDER = [DISCOVER, UNDERSTAND, NOTICE, PRACTICE, PRODUCE, INPUT_FLOOD, REVIEW]"

text \<open>The position of a phase in \<open>PHASE_ORDER\<close>.\<close>

fun phase_index :: "phase \<Rightarrow> nat" where
  "phase_index DISCOVER = 0"
| "phase_index UNDERSTAND = 1"
| "phase_index NOTICE = 2"
| "phase_index PRACTICE = 3"
| "phase_index PRODUCE = 4"
| "phase_index INPUT_FLOOD = 5"
| "phase_index REVIEW = 6"

record practice_entry =
  practice_completed :: bool
  practice_score :: real
  practice_attempts :: nat

record submission =
  sub_text :: "string option"
  sub_feedback :: "string option"
  sub_timestamp :: int

record produce_entry =
  produce_completed :: bool
  submissions :: "submission list"

record review_entry =
  review_cards :: "string list"
  review_accuracy :: real
  review_lastReview :: "int option"

text \<open>
  The entries read with \<open>?.\<close> in the source (\<open>practice\<close>, \<open>produce\<close>, \<open>review\<close>) may be
  absent; the three flags and the \<open>input_flood\<close> counter are always present.
\<close>

record phases =
  discover :: bool
  understand :: bool
  notice :: bool
  practice :: "practice_entry option"
  produce :: "produce_entry option"
  input_flood :: nat
  review :: "review_entry option"

record topic_progress =
  topic_phases :: phases
  testScore :: "real option"
  acquired :: bool
  startedAt :: "int option"
  completedAt :: "int option"

text \<open>The fresh record \<open>getTopicProgress\<close> returns for a topic without stored progress.\<close>

definition defaultProgress :: topic_progress where
  "defaultProgress =
     \<lparr> topic_phases =
         \<lparr> discover = False, understand = False, notice = False,
           practice = Some \<lparr> practice_completed = False, practice_score = 0, practice_attempts = 0 \<rparr>,
           produce = Some \<lparr> produce_completed = False, submissions = [] \<rparr>,
           input_flood = 0,
           review = Some \<lparr> review_cards = [], review_accuracy = 0, review_lastReview = None \<rparr> \<rparr>,
       testScore = None, acquired = False, startedAt = None, completedAt = None \<rparr>"

text \<open>\<open>progress.phases.practice?.completed\<close> and \<open>progress.phases.produce?.completed\<close> as truth values.\<close>

definition practiceDone :: "phases \<Rightarrow> bool" where
  "practiceDone ph = (case practice ph of None \<Rightarrow> False | Some p \<Rightarrow> practice_completed p)"

definition produceDone :: "phases \<Rightarrow> bool" where
  "produceDone ph = (case produce ph of None \<Rightarrow> False | Some p \<Rightarrow> produce_completed p)"

definition determineCurrentPhase :: "topic_progress \<Rightarrow> phase" where
  "determineCurrentPhase pr =
     (let ph = topic_phases pr
      in if \<not> discover ph then DISCOVER
         else if \<not> understand ph then UNDERSTAND
         else if \<not> notice ph then NOTICE
         else if \<not> practiceDone ph then PRACTICE
         else if \<not> produceDone ph then PRODUCE
         else if input_flood ph < 5 then INPUT_FLOOD
         else REVIEW)"

definition isTopicCompleted :: "topic_progress \<Rightarrow> bool" where
  "isTopicCompleted pr =
     (let ph = topic_phases pr
      in discover ph \<and> understand ph \<and> notice ph \<and> practiceDone ph \<and> produceDone ph \<and>
         input_flood ph \<ge> 5)"

text \<open>The \<open>data\<close> argument of \<open>completePhase\<close>; every property is optional.\<close>

record phase_data =
  data_score :: "real option"
  data_text :: "string option"
  data_feedback :: "string option"
  data_accuracy :: "real option"

text \<open>\<open>a || b\<close> on numbers: a missing or zero \<open>a\<close> is falsy.\<close>

definition js_or :: "real option \<Rightarrow> real \<Rightarrow> real" where
  "js_or a b = (case a of None \<Rightarrow> b | Some x \<Rightarrow> if x = 0 then b else x)"

text \<open>The \<open>switch\<close> of \<open>completePhase\<close>: the update of the phase entries.\<close>

definition updatePhases :: "phases \<Rightarrow> phase \<Rightarrow> phase_data \<Rightarrow> int \<Rightarrow> phases" where
  "updatePhases ph p d now =
     (case p of
        DISCOVER \<Rightarrow> ph\<lparr> discover := True \<rparr>
      | UNDERSTAND \<Rightarrow> ph\<lparr> understand := True \<rparr>
      | NOTICE \<Rightarrow> ph\<lparr> notice := True \<rparr>
      | PRACTICE \<Rightarrow>
          ph\<lparr> practice := Some
              \<lparr> practice_completed = (case data_score d of None \<Rightarrow> False | Some x \<Rightarrow> x \<ge> 7 / 10),
                practice_score = js_or (data_score d) 0,
                practice_attempts =
                  (case practice ph of None \<Rightarrow> 0 | Some e \<Rightarrow> practice_attempts e) + 1 \<rparr> \<rparr>
      | PRODUCE \<Rightarrow>
          ph\<lparr> produce := Some
              \<lparr> produce_completed = True,
                submissions =
                  (case produce ph of None \<Rightarrow> [] | Some e \<Rightarrow> submissions e) @
                  [\<lparr> sub_text = data_text d, sub_feedback = data_feedback d,
                     sub_timestamp = now \<rparr>] \<rparr> \<rparr>
      | INPUT_FLOOD \<Rightarrow> ph\<lparr> input_flood := input_flood ph + 1 \<rparr>
      | REVIEW \<Rightarrow>
          ph\<lparr> review := Some
              \<lparr> review_cards = (case review ph of None \<Rightarrow> [] | Some e \<Rightarrow> review_cards e),
                review_accuracy =
                  js_or (data_accuracy d)
                    (js_or (map_option review_accuracy (review ph)) 0),
                review_lastReview = Some now \<rparr> \<rparr>)"

text \<open>The update of one topic's record: the switch, then the completion check.\<close>

definition completeProgress :: "topic_progress \<Rightarrow> phase \<Rightarrow> phase_data \<Rightarrow> int \<Rightarrow> topic_progress" where
  "completeProgress pr p d now =
     (let pr1 = pr\<lparr> topic_phases := updatePhases (topic_phases pr) p d now \<rparr>
      in if isTopicCompleted pr1
         then pr1\<lparr> completedAt := Some now,
                   acquired := (case review (topic_phases pr1) of None \<Rightarrow> False
                                | Some e \<Rightarrow> review_accuracy e \<ge> 8 / 10) \<rparr>
         else pr1)"

record grammar_state =
  progress :: "string \<rightharpoonup> topic_progress"
  currentTopic :: "string option"
  currentPhase :: "phase option"

datatype js_error = TypeError

text \<open>
  What \<open>completePhase\<close> returns: \<open>{ success: false }\<close> without a current topic, else
  the updated progress with the re-derived phase. Reading \<open>.phases\<close> of a missing
  progress entry throws.
\<close>

datatype completion = NoSuccess | Success topic_progress phase bool

definition completePhase ::
  "grammar_state \<Rightarrow> phase \<Rightarrow> phase_data \<Rightarrow> int \<Rightarrow> js_error + (completion \<times> grammar_state)" where
  "completePhase g p d now =
     (case currentTopic g of
        None \<Rightarrow> Inr (NoSuccess, g)
      | Some t \<Rightarrow>
          if t = [] then Inr (NoSuccess, g)
          else (case progress g t of
                  None \<Rightarrow> Inl TypeError
                | Some pr \<Rightarrow>
                    (let pr' = completeProgress pr p d now;
                         nxt = determineCurrentPhase pr'
                     in Inr (Success pr' nxt (completedAt pr' \<noteq> None),
                             g\<lparr> progress := (progress g)(t \<mapsto> pr'), currentPhase := Some nxt \<rparr>))))"

text \<open>A call other than a practice submission that misses the pass threshold \<open>0.7\<close>.\<close>

definition passingCall :: "phase \<Rightarrow> phase_data \<Rightarrow> bool" where
  "passingCall p d \<longleftrightarrow>
     p \<noteq> PRACTICE \<or> (case data_score d of None \<Rightarrow> False | Some x \<Rightarrow> x \<ge> 7 / 10)"


section \<open>Adaptive placement engine (src/js/placementTest.js)\<close>

datatype level = A1 | A2 | B1 | B2 | C1

definition levels :: "level list" where
  "levels = [A1, A2, B1, B2, C1]"

text \<open>\<open>levels.indexOf(l)\<close>\<close>

fun level_index :: "level \<Rightarrow> nat" where
  "level_index A1 = 0"
| "level_index A2 = 1"
| "level_index B1 = 2"
| "level_index B2 = 3"
| "level_index C1 = 4"

text \<open>\<open>levels[i]\<close> for any integer \<open>i\<close>: \<open>undefined\<close> outside the array.\<close>

definition level_at :: "int \<Rightarrow> level option" where
  "level_at i = (if 0 \<le> i \<and> i < int (length levels) then Some (levels ! nat i) else None)"

datatype test_section = Grammar | Vocabulary | Reading | Listening_simulation

definition minQuestions :: nat where
  "minQuestions = 50"

definition maxQuestions :: nat where
  "maxQuestions = 70"

definition sections :: "test_section list" where
  "sections = [Grammar, Vocabulary, Reading, Listening_simulation]"

definition adaptiveThreshold :: real where
  "adaptiveThreshold = 7 / 10"

definition moveDownThreshold :: real where
  "moveDownThreshold = 4 / 10"

definition stabilityWindow :: nat where
  "stabilityWindow = 10"

fun level_name :: "level \<Rightarrow> string" where
  "level_name A1 = ''A1''"
| "level_name A2 = ''A2''"
| "level_name B1 = ''B1''"
| "level_name B2 = ''B2''"
| "level_name C1 = ''C1''"

fun section_name :: "test_section \<Rightarrow> string" where
  "section_name Grammar = ''grammar''"
| "section_name Vocabulary = ''vocabulary''"
| "section_name Reading = ''reading''"
| "section_name Listening_simulation = ''listening_simulation''"

text \<open>The template string \<open>`${level}_${section}_${q.id}`\<close>.\<close>

definition makeQId :: "level \<Rightarrow> test_section \<Rightarrow> string \<Rightarrow> string" where
  "makeQId l sec i = level_name l @ ''_'' @ section_name sec @ ''_'' @ i"

text \<open>
  A bank question: its id, the index of the correct option and the options. The texts a
  question is displayed with play no part in selection or scoring and are left out.
\<close>

record question =
  q_id :: string
  q_correct :: int
  q_options :: "string list"

text \<open>\<open>questionBanks[level].bySection[section]\<close>; either lookup may be missing.\<close>

type_synonym bank = "test_section \<Rightarrow> question list option"

type_synonym banks = "level \<Rightarrow> bank option"

text \<open>A selected question \<open>{ ...q, level, section }\<close>, and as pushed on \<open>questions\<close>.\<close>

record selected =
  sel_question :: question
  sel_level :: level
  sel_section :: test_section

record asked =
  asked_question :: question
  asked_level :: level
  asked_section :: test_section
  asked_qId :: string
  asked_index :: nat

record answer_rec =
  ans_questionIndex :: nat
  ans_qId :: string
  ans_answer :: int
  ans_correct :: bool
  ans_level :: level
  ans_section :: test_section

record level_score =
  ls_correct :: nat
  ls_total :: nat

record section_score =
  sc_correct :: nat
  sc_total :: nat
  byLevel :: "level \<Rightarrow> level_score"

record history_entry =
  h_level :: level
  h_correct :: bool

record test_session =
  test_startTime :: int
  currentLevel :: level
  questions :: "asked list"
  answers :: "answer_rec list"
  sectionScores :: "test_section \<Rightarrow> section_score"
  usedQuestionIds :: "string set"
  questionCount :: nat
  levelHistory :: "history_entry list"
  finished :: bool
  endTime :: "int option"

record placement =
  testSession :: "test_session option"
  questionBanks :: banks

text \<open>The session \<open>startTest\<close> creates, with \<open>byLevel\<close> initialised for all five levels.\<close>

definition newSession :: "int \<Rightarrow> test_session" where
  "newSession now =
     \<lparr> test_startTime = now, currentLevel = A2, questions = [], answers = [],
       sectionScores = (\<lambda>_. \<lparr> sc_correct = 0, sc_total = 0,
                                byLevel = (\<lambda>_. \<lparr> ls_correct = 0, ls_total = 0 \<rparr>) \<rparr>),
       usedQuestionIds = {}, questionCount = 0, levelHistory = [], finished = False,
       endTime = None \<rparr>"

definition startTest :: "int \<Rightarrow> placement \<Rightarrow> placement" where
  "startTest now p = p\<lparr> testSession := Some (newSession now) \<rparr>"

text \<open>
  \<open>Math.floor(Math.random() * available.length)\<close> is some index of \<open>available\<close>; the
  parameter \<open>r\<close> supplies the draw, reduced into that range.
\<close>

definition selectQuestion :: "nat \<Rightarrow> banks \<Rightarrow> test_section \<Rightarrow> level \<Rightarrow> string set \<Rightarrow> selected option" where
  "selectQuestion r bs sec l usedIds =
     (case bs l of
        None \<Rightarrow> None
      | Some bank \<Rightarrow>
          (case bank sec of
             None \<Rightarrow> None
           | Some qs \<Rightarrow>
               (let available = filter (\<lambda>q. makeQId l sec (q_id q) \<notin> usedIds) qs
                in if length available = 0 then None
                   else Some \<lparr> sel_question = available ! (r mod length available),
                               sel_level = l, sel_section = sec \<rparr>)))"

record formatted =
  f_id :: string
  f_section :: test_section
  f_level :: level
  f_questionNumber :: nat
  f_progress :: real

definition formatQuestion :: "selected \<Rightarrow> test_section \<Rightarrow> nat \<Rightarrow> test_session \<Rightarrow> formatted \<times> test_session" where
  "formatQuestion q sec qc s =
     (let qId = makeQId (sel_level q) sec (q_id (sel_question q))
      in (\<lparr> f_id = qId, f_section = sec, f_level = sel_level q, f_questionNumber = qc + 1,
            f_progress = real (qc + 1) / real minQuestions \<rparr>,
          s\<lparr> usedQuestionIds := insert qId (usedQuestionIds s),
             questions := questions s @
               [\<lparr> asked_question = sel_question q, asked_level = sel_level q,
                  asked_section = sel_section q, asked_qId = qId, asked_index = qc \<rparr>],
             questionCount := questionCount s + 1 \<rparr>))"

text \<open>
  \<open>[...new Set(levels)].length === 1\<close>: the number of distinct levels among the last
  \<open>stabilityWindow\<close> history entries.
\<close>

definition shouldEndTest :: "test_session \<Rightarrow> bool" where
  "shouldEndTest s =
     (if questionCount s < minQuestions then False
      else
        (let recentLevels = js_slice_last stabilityWindow (levelHistory s)
         in if length recentLevels < stabilityWindow then False
            else length (remdups (map h_level recentLevels)) = 1))"

text \<open>
  The levels tried when the current level has no unused question, in the order of the two
  nested loops: \<open>offset\<close> 1 then 2, \<open>dir\<close> 1 then -1; indices outside \<open>levels\<close> are skipped.
\<close>

definition adjacentLevels :: "level \<Rightarrow> level list" where
  "adjacentLevels l =
     List.map_filter level_at
       (concat (map (\<lambda>offset. map (\<lambda>dir. int (level_index l) + offset * dir) [1, - 1]) [1, 2]))"

fun firstSelected :: "nat \<Rightarrow> banks \<Rightarrow> test_section \<Rightarrow> string set \<Rightarrow> level list \<Rightarrow> selected option" where
  "firstSelected r bs sec usedIds [] = None"
| "firstSelected r bs sec usedIds (l # ls) =
     (case selectQuestion r bs sec l usedIds of
        Some q \<Rightarrow> Some q
      | None \<Rightarrow> firstSelected r bs sec usedIds ls)"

datatype next_question = NoSession | Finished | Question formatted

definition ask :: "selected \<Rightarrow> test_section \<Rightarrow> test_session \<Rightarrow> placement \<Rightarrow> next_question \<times> placement" where
  "ask q sec s p =
     (let (f, s') = formatQuestion q sec (questionCount s) s
      in (Question f, p\<lparr> testSession := Some s' \<rparr>))"

text \<open>
  \<open>getNextQuestion\<close> calls itself when no level in reach has an unused question for the
  section; \<open>None\<close> is the call that never returns.
\<close>

partial_function (option) getNextQuestion :: "nat \<Rightarrow> placement \<Rightarrow> (next_question \<times> placement) option" where
  "getNextQuestion r p =
     (case testSession p of
        None \<Rightarrow> Some (NoSession, p)
      | Some s \<Rightarrow>
          if questionCount s \<ge> maxQuestions \<or> shouldEndTest s then Some (Finished, p)
          else
            (let sec = sections ! (questionCount s mod length sections)
             in case selectQuestion r (questionBanks p) sec (currentLevel s) (usedQuestionIds s) of
                  Some q \<Rightarrow> Some (ask q sec s p)
                | None \<Rightarrow>
                    (case firstSelected r (questionBanks p) sec (usedQuestionIds s)
                            (adjacentLevels (currentLevel s)) of
                       Some q \<Rightarrow> Some (ask q sec s p)
                     | None \<Rightarrow> getNextQuestion r p)))"

definition adaptLevel :: "test_session \<Rightarrow> test_session" where
  "adaptLevel s =
     (let recentAnswers = js_slice_last 5 (answers s)
      in if length recentAnswers < 5 then s
         else
           (let currentLevelAnswers = filter (\<lambda>a. ans_level a = currentLevel s) recentAnswers
            in if length currentLevelAnswers < 3 then s
               else
                 (let recentAccuracy =
                        real (length (filter ans_correct currentLevelAnswers)) /
                        real (length currentLevelAnswers);
                      idx = level_index (currentLevel s)
                  in if recentAccuracy \<ge> adaptiveThreshold
                     then (if idx < length levels - 1
                           then s\<lparr> currentLevel := levels ! (idx + 1) \<rparr> else s)
                     else if recentAccuracy < moveDownThreshold
                     then (if idx > 0 then s\<lparr> currentLevel := levels ! (idx - 1) \<rparr> else s)
                     else s)))"

record submit_result =
  sr_isCorrect :: bool
  sr_correctAnswer :: int

text \<open>
  \<open>submitAnswer\<close> grades the last question pushed; with no question asked yet, reading
  \<open>currentQuestion.correct\<close> throws.
\<close>

definition recordAnswer :: "int \<Rightarrow> asked \<Rightarrow> test_session \<Rightarrow> test_session" where
  "recordAnswer answerIndex cq s =
     (let isCorrect = (answerIndex = q_correct (asked_question cq));
          sc = sectionScores s (asked_section cq);
          bl = byLevel sc (asked_level cq);
          sc' = sc\<lparr> sc_total := sc_total sc + 1,
                    sc_correct := (if isCorrect then sc_correct sc + 1 else sc_correct sc),
                    byLevel := (byLevel sc)(asked_level cq :=
                      bl\<lparr> ls_total := ls_total bl + 1,
                          ls_correct := (if isCorrect then ls_correct bl + 1 else ls_correct bl) \<rparr>) \<rparr>
      in s\<lparr> answers := answers s @
               [\<lparr> ans_questionIndex = asked_index cq, ans_qId = asked_qId cq,
                  ans_answer = answerIndex, ans_correct = isCorrect,
                  ans_level = asked_level cq, ans_section = asked_section cq \<rparr>],
            sectionScores := (sectionScores s)(asked_section cq := sc'),
            levelHistory := levelHistory s @
               [\<lparr> h_level = asked_level cq, h_correct = isCorrect \<rparr>] \<rparr>)"

definition submitAnswer :: "int \<Rightarrow> placement \<Rightarrow> js_error + (submit_result option \<times> placement)" where
  "submitAnswer answerIndex p =
     (case testSession p of
        None \<Rightarrow> Inr (None, p)
      | Some s \<Rightarrow>
          if questions s = [] then Inl TypeError
          else
            (let cq = last (questions s);
                 s' = adaptLevel (recordAnswer answerIndex cq s)
             in Inr (Some \<lparr> sr_isCorrect = (answerIndex = q_correct (asked_question cq)),
                            sr_correctAnswer = q_correct (asked_question cq) \<rparr>,
                     p\<lparr> testSession := Some s' \<rparr>)))"

definition determineSectionLevel :: "(level \<Rightarrow> level_score) \<Rightarrow> level" where
  "determineSectionLevel bl =
     foldl (\<lambda>determined l.
              if ls_total (bl l) \<ge> 2 \<and> real (ls_correct (bl l)) / real (ls_total (bl l)) \<ge> 6 / 10
              then l else determined)
       A1 levels"

record section_result =
  res_correct :: nat
  res_total :: nat
  res_accuracy :: real
  res_level :: level
  res_byLevel :: "level \<Rightarrow> level_score"

text \<open>
  \<open>calculateOverallLevel\<close> on the section results in the order of \<open>Object.values\<close>. Every
  result carries a level, so \<open>filter(Boolean)\<close> keeps all of them.
\<close>

definition calculateOverallLevel :: "section_result list \<Rightarrow> level" where
  "calculateOverallLevel rs =
     (let sectionLevels = map res_level rs
      in if length sectionLevels = 0 then A1
         else
           (let levelCounts = foldl (\<lambda>m l. m(l := m l + 1)) (\<lambda>_. 0 :: nat) sectionLevels;
                (maxCount, resultLevel) =
                   foldl (\<lambda>(mc, rl) l. if levelCounts l > mc then (levelCounts l, l) else (mc, rl))
                     (0, A1) levels;
                minLevel = foldl (\<lambda>mn l. if level_index l < level_index mn then l else mn)
                             (hd sectionLevels) (tl sectionLevels);
                minIdx = int (level_index minLevel);
                resultIdx = int (level_index resultLevel)
            in if resultIdx - minIdx \<ge> 2 then levels ! nat (max 0 (resultIdx - 1))
               else resultLevel))"

record finish_result =
  overallLevel :: level
  sectionResults :: "(test_section \<times> section_result) list"
  duration :: int
  questionsAnswered :: nat

text \<open>
  \<open>finishTest\<close> without the write to the profile store: the section results in the order
  of the \<open>sectionScores\<close> object, then the overall level.
\<close>

definition finishTest :: "int \<Rightarrow> test_session \<Rightarrow> finish_result \<times> test_session" where
  "finishTest now s =
     (let s' = s\<lparr> finished := True, endTime := Some now \<rparr>;
          rs = map (\<lambda>sec. let sc = sectionScores s' sec
                          in (sec, \<lparr> res_correct = sc_correct sc, res_total = sc_total sc,
                                    res_accuracy = (if sc_total sc > 0
                                       then real (sc_correct sc) / real (sc_total sc) else 0),
                                    res_level = determineSectionLevel (byLevel sc),
                                    res_byLevel = byLevel sc \<rparr>)) sections
      in (\<lparr> overallLevel = calculateOverallLevel (map snd rs), sectionResults = rs,
            duration = now - test_startTime s', questionsAnswered = questionCount s' \<rparr>, s'))"


section \<open>Specification-side definitions and example states\<close>

subsection \<open>Topic acquisition\<close>

definition scoreData :: "real \<Rightarrow> phase_data" where
  "scoreData x =
     \<lparr> data_score = Some x, data_text = None, data_feedback = None, data_accuracy = None \<rparr>"

definition noData :: phase_data where
  "noData = \<lparr> data_score = None, data_text = None, data_feedback = None, data_accuracy = None \<rparr>"

text \<open>
  A topic taken through \<open>discover\<close>, \<open>understand\<close>, \<open>notice\<close> and a practice submission
  with score 0.9, starting from the fresh record.
\<close>

definition practisedProgress :: topic_progress where
  "practisedProgress =
     foldl (\<lambda>pr (p, d). completeProgress pr p d 0) defaultProgress
       [(DISCOVER, noData), (UNDERSTAND, noData), (NOTICE, noData),
        (PRACTICE, scoreData (9 / 10))]"

definition practisedGrammar :: grammar_state where
  "practisedGrammar =
     \<lparr> progress = [''a1_to_be'' \<mapsto> practisedProgress], currentTopic = Some ''a1_to_be'',
       currentPhase = Some PRODUCE \<rparr>"

subsection \<open>Placement: question selection\<close>

text \<open>The banks when no placement file could be loaded.\<close>

definition emptyBanks :: banks where
  "emptyBanks = (\<lambda>_. None)"

text \<open>
  A state in which \<open>getNextQuestion\<close> reaches its self-call: the test is not over, and
  neither the current level nor a level at distance 1 or 2 has an unused question for the
  section of this round.
\<close>

definition stuck :: "nat \<Rightarrow> placement \<Rightarrow> bool" where
  "stuck r p \<longleftrightarrow>
     (case testSession p of
        None \<Rightarrow> False
      | Some s \<Rightarrow>
          \<not> (questionCount s \<ge> maxQuestions \<or> shouldEndTest s) \<and>
          selectQuestion r (questionBanks p) (sections ! (questionCount s mod length sections))
            (currentLevel s) (usedQuestionIds s) = None \<and>
          firstSelected r (questionBanks p) (sections ! (questionCount s mod length sections))
            (usedQuestionIds s) (adjacentLevels (currentLevel s)) = None)"

subsection \<open>Placement: end of the test\<close>

text \<open>
  The end condition in the words of the specification: 70 questions asked, or at least 50
  asked and the last 10 answered questions all of one level.
\<close>

definition spec_testEnds :: "test_session \<Rightarrow> bool" where
  "spec_testEnds s \<longleftrightarrow>
     70 \<le> questionCount s \<or>
     (50 \<le> questionCount s \<and> 10 \<le> length (levelHistory s) \<and>
      (\<forall>a \<in> set (take 10 (rev (levelHistory s))).
         \<forall>b \<in> set (take 10 (rev (levelHistory s))). h_level a = h_level b))"

subsection \<open>Placement: level adaptation\<close>

fun level_up :: "level \<Rightarrow> level" where
  "level_up A1 = A2"
| "level_up A2 = B1"
| "level_up B1 = B2"
| "level_up B2 = C1"
| "level_up C1 = C1"

fun level_down :: "level \<Rightarrow> level" where
  "level_down A1 = A1"
| "level_down A2 = A1"
| "level_down B1 = A2"
| "level_down B2 = B1"
| "level_down C1 = B2"

text \<open>
  The adaptation rule in the words of the specification, on the answers given so far and
  the current level.
\<close>

definition spec_adaptedLevel :: "answer_rec list \<Rightarrow> level \<Rightarrow> level" where
  "spec_adaptedLevel as cur =
     (let atLevel = filter (\<lambda>a. ans_level a = cur) (take 5 (rev as));
          accuracy = real (length (filter ans_correct atLevel)) / real (length atLevel)
      in if 5 \<le> length as \<and> 3 \<le> length atLevel
         then (if 7 / 10 \<le> accuracy then level_up cur
               else if accuracy < 4 / 10 then level_down cur
               else cur)
         else cur)"

text \<open>
  An example run: every bank holds two questions per section whose correct option is 0.
  Each round asks the next question and answers it. Five rounds answered wrong, wrong,
  right, right, right; then a sixth question is asked.
\<close>

definition exampleQuestion :: "string \<Rightarrow> question" where
  "exampleQuestion i = \<lparr> q_id = i, q_correct = 0, q_options = [''yes'', ''no''] \<rparr>"

definition exampleBanks :: banks where
  "exampleBanks = (\<lambda>l. Some (\<lambda>sec. Some [exampleQuestion ''1'', exampleQuestion ''2'']))"

definition askAndAnswer :: "int \<Rightarrow> placement \<Rightarrow> placement" where
  "askAndAnswer a p =
     (case getNextQuestion 0 p of
        Some (Question f, p1) \<Rightarrow> (case submitAnswer a p1 of Inr (r, p2) \<Rightarrow> p2 | Inl e \<Rightarrow> p1)
      | _ \<Rightarrow> p)"

definition freshTest :: placement where
  "freshTest = startTest 0 \<lparr> testSession = None, questionBanks = exampleBanks \<rparr>"

definition afterFive :: placement where
  "afterFive = foldl (\<lambda>p a. askAndAnswer a p) freshTest [1, 1, 0, 0, 0]"

definition sixthAsked :: placement where
  "sixthAsked = (case getNextQuestion 0 afterFive of Some (x, p1) \<Rightarrow> p1 | None \<Rightarrow> afterFive)"

definition sessionOf :: "placement \<Rightarrow> test_session" where
  "sessionOf p = (case testSession p of Some s \<Rightarrow> s | None \<Rightarrow> newSession 0)"

subsection \<open>Placement: scoring\<close>

text \<open>
  The scoring rule in the words of the specification: a level qualifies for a section with
  at least 2 attempted questions and an accuracy of at least 0.6; the most frequent section
  level, the lowest such on a tie; the weakest section level.
\<close>

definition qualifies :: "(level \<Rightarrow> level_score) \<Rightarrow> level \<Rightarrow> bool" where
  "qualifies bl l \<longleftrightarrow>
     2 \<le> ls_total (bl l) \<and> 6 / 10 \<le> real (ls_correct (bl l)) / real (ls_total (bl l))"

definition spec_mostFrequent :: "level list \<Rightarrow> level \<Rightarrow> bool" where
  "spec_mostFrequent ls m \<longleftrightarrow>
     m \<in> set ls \<and> (\<forall>l. count_list ls l \<le> count_list ls m) \<and>
     (\<forall>l. count_list ls l = count_list ls m \<longrightarrow> level_index m \<le> level_index l)"

definition spec_weakest :: "level list \<Rightarrow> level \<Rightarrow> bool" where
  "spec_weakest ls w \<longleftrightarrow> w \<in> set ls \<and> (\<forall>l \<in> set ls. level_index w \<le> level_index l)"

text \<open>The loop body of the scan for the highest count, and the invariant of that scan.\<close>

definition scanStep :: "(level \<Rightarrow> nat) \<Rightarrow> nat \<times> level \<Rightarrow> level \<Rightarrow> nat \<times> level" where
  "scanStep c = (\<lambda>(mc, rl) l. if c l > mc then (c l, l) else (mc, rl))"

definition scanInv :: "(level \<Rightarrow> nat) \<Rightarrow> level list \<Rightarrow> nat \<times> level \<Rightarrow> bool" where
  "scanInv c seen st \<longleftrightarrow>
     (\<forall>l \<in> set seen. c l \<le> fst st) \<and>
     (if fst st = 0 then snd st = A1
      else snd st \<in> set seen \<and> c (snd st) = fst st \<and>
           (\<forall>l \<in> set seen. c l = fst st \<longrightarrow> level_index (snd st) \<le> level_index l))"

text \<open>Example inputs: a section result at a given level, and per-level scores of one section.\<close>

definition resultAt :: "level \<Rightarrow> section_result" where
  "resultAt l =
     \<lparr> res_correct = 0, res_total = 0, res_accuracy = 0, res_level = l,
       res_byLevel = (\<lambda>_. \<lparr> ls_correct = 0, ls_total = 0 \<rparr>) \<rparr>"

definition exampleByLevel :: "level \<Rightarrow> level_score" where
  "exampleByLevel l =
     (case l of
        A1 \<Rightarrow> \<lparr> ls_correct = 2, ls_total = 2 \<rparr>
      | A2 \<Rightarrow> \<lparr> ls_correct = 3, ls_total = 4 \<rparr>
      | B1 \<Rightarrow> \<lparr> ls_correct = 3, ls_total = 5 \<rparr>
      | B2 \<Rightarrow> \<lparr> ls_correct = 1, ls_total = 3 \<rparr>
      | C1 \<Rightarrow> \<lparr> ls_correct = 1, ls_total = 1 \<rparr>)"

section \<open>Properties of binary64 rounding\<close>

lemma round_even_of_int: "round_even (of_int n) = n"
  by (simp add: round_even_def)

lemma round_even_bounds: "\<lfloor>y\<rfloor> \<le> round_even y \<and> round_even y \<le> \<lfloor>y\<rfloor> + 1"
  by (simp add: round_even_def Let_def)

lemma round_even_mono:
  assumes "x \<le> y"
  shows "round_even x \<le> round_even y"
proof (cases "\<lfloor>x\<rfloor> = \<lfloor>y\<rfloor>")
  case True
  have "x - of_int \<lfloor>y\<rfloor> \<le> y - of_int \<lfloor>y\<rfloor>" using assms by simp
  then show ?thesis
    using True by (auto simp: round_even_def Let_def)
next
  case False
  then have "\<lfloor>x\<rfloor> < \<lfloor>y\<rfloor>"
    using floor_mono[OF assms] by simp
  then have "\<lfloor>x\<rfloor> + 1 \<le> \<lfloor>y\<rfloor>" by simp
  then show ?thesis
    using round_even_bounds[of x] round_even_bounds[of y] by linarith
qed

lemma pow_split52: "(2::real) powi e = 2 ^ 52 * 2 powi (e - 52)"
proof -
  have "(2::real) powi e = 2 powi (52 + (e - 52))" by simp
  also have "\<dots> = 2 powi 52 * 2 powi (e - 52)" by (rule power_int_add) simp
  finally show ?thesis by simp
qed

lemma pow_split53: "(2::real) powi (e + 1) = 2 ^ 53 * 2 powi (e - 52)"
proof -
  have "e + 1 = 53 + (e - 52)" by simp
  then have "(2::real) powi (e + 1) = 2 powi (53 + (e - 52))" by (rule arg_cong)
  also have "\<dots> = 2 powi 53 * 2 powi (e - 52)" by (rule power_int_add) simp
  finally show ?thesis by simp
qed

lemma binade:
  assumes "0 < x"
  shows "2 powi \<lfloor>log 2 x\<rfloor> \<le> x \<and> x < 2 powi (\<lfloor>log 2 x\<rfloor> + 1)"
proof -
  have "2 powr real_of_int \<lfloor>log 2 x\<rfloor> \<le> x \<and> x < 2 powr (real_of_int \<lfloor>log 2 x\<rfloor> + 1)"
    using floor_log_eq_powr_iff[of x 2 "\<lfloor>log 2 x\<rfloor>"] assms by simp
  moreover have "2 powr real_of_int \<lfloor>log 2 x\<rfloor> = 2 powi \<lfloor>log 2 x\<rfloor>"
    by (rule powr_real_of_int') simp_all
  moreover have "2 powr real_of_int (\<lfloor>log 2 x\<rfloor> + 1) = 2 powi (\<lfloor>log 2 x\<rfloor> + 1)"
    by (rule powr_real_of_int') simp_all
  moreover have "real_of_int (\<lfloor>log 2 x\<rfloor> + 1) = real_of_int \<lfloor>log 2 x\<rfloor> + 1" by simp
  ultimately show ?thesis by metis
qed

lemma binade_unique:
  assumes "0 < x" "2 powi e \<le> x" "x < 2 powi (e + 1)"
  shows "\<lfloor>log 2 x\<rfloor> = e"
proof -
  have a: "2 powr real_of_int e = 2 powi e"
    by (rule powr_real_of_int') simp_all
  have b: "2 powr real_of_int (e + 1) = 2 powi (e + 1)"
    by (rule powr_real_of_int') simp_all
  have c: "real_of_int (e + 1) = real_of_int e + 1" by simp
  have "2 powr real_of_int e \<le> x \<and> x < 2 powr (real_of_int e + 1)"
    using assms a b c by metis
  then show ?thesis
    using floor_log_eq_powr_iff[of x 2 e] assms(1) by simp
qed

lemma double_binade:
  assumes "0 < x" "2 powi e \<le> x" "x < 2 powi (e + 1)"
  shows "double x = of_int (round_even (x / 2 powi (e - 52))) * 2 powi (e - 52)"
  using assms binade_unique[OF assms] by (simp add: double_def)

lemma scaled_range:
  fixes x :: real
  assumes "0 < x" "2 powi e \<le> x" "x < 2 powi (e + 1)"
  shows "2 ^ 52 \<le> x / 2 powi (e - 52) \<and> x / 2 powi (e - 52) < 2 ^ 53"
proof -
  have p: "(0::real) < 2 powi (e - 52)" by simp
  show ?thesis
    using assms(2,3) p unfolding pow_split52[of e] pow_split53[of e]
    by (simp add: pos_le_divide_eq pos_divide_less_eq)
qed

lemma mantissa_range:
  assumes "0 < x" "2 powi e \<le> x" "x < 2 powi (e + 1)"
  shows "2 ^ 52 \<le> round_even (x / 2 powi (e - 52)) \<and> round_even (x / 2 powi (e - 52)) \<le> 2 ^ 53"
proof -
  from scaled_range[OF assms]
  have lo: "real_of_int (2 ^ 52) \<le> x / 2 powi (e - 52)"
    and hi: "x / 2 powi (e - 52) \<le> real_of_int (2 ^ 53)"
    by simp_all
  have "round_even (real_of_int (2 ^ 52)) \<le> round_even (x / 2 powi (e - 52))"
    using lo by (rule round_even_mono)
  moreover have "round_even (x / 2 powi (e - 52)) \<le> round_even (real_of_int (2 ^ 53))"
    using hi by (rule round_even_mono)
  ultimately show ?thesis
    unfolding round_even_of_int by simp
qed

lemma double_range:
  assumes "0 < x" "2 powi e \<le> x" "x < 2 powi (e + 1)"
  shows "2 powi e \<le> double x \<and> double x \<le> 2 powi (e + 1)"
proof -
  have p: "(0::real) \<le> 2 powi (e - 52)" by simp
  from mantissa_range[OF assms]
  have "real_of_int (2 ^ 52) \<le> of_int (round_even (x / 2 powi (e - 52)))"
    and "of_int (round_even (x / 2 powi (e - 52))) \<le> real_of_int (2 ^ 53)"
    by (simp_all only: of_int_le_iff)
  then have "(2::real) ^ 52 * 2 powi (e - 52)
        \<le> real_of_int (round_even (x / 2 powi (e - 52))) * 2 powi (e - 52)"
    and "real_of_int (round_even (x / 2 powi (e - 52))) * 2 powi (e - 52)
        \<le> (2::real) ^ 53 * 2 powi (e - 52)"
    using p by (simp_all add: mult_right_mono)
  then show ?thesis
    unfolding double_binade[OF assms] pow_split52[of e] pow_split53[of e] by simp
qed

lemma double_pos:
  assumes "0 < x"
  shows "0 < double x"
proof -
  have "(0::real) < 2 powi \<lfloor>log 2 x\<rfloor>" by simp
  moreover have "2 powi \<lfloor>log 2 x\<rfloor> \<le> double x"
    using double_range[of x "\<lfloor>log 2 x\<rfloor>"] binade[OF assms] assms by simp
  ultimately show ?thesis by linarith
qed

lemma double_zero: "double 0 = 0"
  by (simp add: double_def)

lemma double_nonneg: "0 \<le> x \<Longrightarrow> 0 \<le> double x"
  using double_pos[of x] by (cases "x = 0") (simp_all add: double_zero less_imp_le)

lemma double_mono:
  assumes "0 \<le> x" "x \<le> y"
  shows "double x \<le> double y"
proof (cases "x = 0")
  case True
  then show ?thesis using assms double_nonneg[of y] by (simp add: double_zero)
next
  case False
  then have x: "0 < x" and y: "0 < y" using assms by simp_all
  define ex where "ex = \<lfloor>log 2 x\<rfloor>"
  define ey where "ey = \<lfloor>log 2 y\<rfloor>"
  have bx: "2 powi ex \<le> x" "x < 2 powi (ex + 1)"
    using binade[OF x] by (simp_all add: ex_def)
  have by': "2 powi ey \<le> y" "y < 2 powi (ey + 1)"
    using binade[OF y] by (simp_all add: ey_def)
  have "log 2 x \<le> log 2 y" using x assms(2) by simp
  then have le: "ex \<le> ey"
    unfolding ex_def ey_def by (rule floor_mono)
  show ?thesis
  proof (cases "ex = ey")
    case True
    have "x / 2 powi (ex - 52) \<le> y / 2 powi (ex - 52)"
      using assms(2) by (simp add: divide_right_mono)
    then have "round_even (x / 2 powi (ex - 52)) \<le> round_even (y / 2 powi (ex - 52))"
      by (rule round_even_mono)
    then have "real_of_int (round_even (x / 2 powi (ex - 52))) * 2 powi (ex - 52)
        \<le> real_of_int (round_even (y / 2 powi (ex - 52))) * 2 powi (ex - 52)"
      by (simp add: mult_right_mono)
    then show ?thesis
      using double_binade[OF x bx] double_binade[OF y by'] True by simp
  next
    case False
    with le have "ex + 1 \<le> ey" by simp
    then have "(2::real) powi (ex + 1) \<le> 2 powi ey"
      by (intro power_int_increasing) simp_all
    then show ?thesis
      using double_range[OF x bx] double_range[OF y by'] by linarith
  qed
qed


lemma double_dyadic:
  assumes "0 < n" "n < 2 ^ 53"
  shows "double (of_int n / 2 ^ k) = of_int n / 2 ^ k"
proof -
  define x :: real where "x = of_int n / 2 ^ k"
  have x: "0 < x" using assms(1) by (simp add: x_def)
  define e where "e = \<lfloor>log 2 x\<rfloor>"
  have bx: "2 powi e \<le> x" "x < 2 powi (e + 1)"
    using binade[OF x] by (simp_all add: e_def)
  have "2 powi e * 2 ^ k \<le> real_of_int n"
    using bx(1) by (simp add: x_def pos_le_divide_eq)
  moreover have "real_of_int n < real_of_int (2 ^ 53)"
    using assms(2) by (simp only: of_int_less_iff)
  ultimately have "(2::real) powi e * 2 powi (int k) < 2 powi 53"
    by simp
  then have lt: "(2::real) powi (e + int k) < 2 powi 53"
    by (simp add: power_int_add)
  have "e + int k < 53"
  proof (rule ccontr)
    assume "\<not> e + int k < 53"
    then have "53 \<le> e + int k" by simp
    then have "(2::real) powi 53 \<le> 2 powi (e + int k)"
      by (intro power_int_increasing) simp_all
    with lt show False by simp
  qed
  then have "0 \<le> 52 - e - int k" by simp
  then obtain j where j: "52 - e - int k = int j"
    using nonneg_int_cases by blast
  have e52: "e - 52 = - int k - int j" using j by simp
  have sc: "(2::real) powi (e - 52) = 1 / (2 ^ k * 2 ^ j)"
    unfolding e52 by (simp add: power_int_diff power_int_minus field_simps)
  have m: "x / 2 powi (e - 52) = real_of_int (n * 2 ^ j)"
    unfolding sc by (simp add: x_def)
  have "double x = real_of_int (n * 2 ^ j) * 2 powi (e - 52)"
    unfolding double_binade[OF x bx] m round_even_of_int ..
  also have "\<dots> = x"
    unfolding sc by (simp add: x_def)
  finally show ?thesis by (simp add: x_def)
qed

lemma double_idem:
  assumes "0 \<le> x"
  shows "double (double x) = double x"
proof (cases "x = 0")
  case True
  then show ?thesis by (simp add: double_zero)
next
  case False
  with assms have x: "0 < x" by simp
  define e where "e = \<lfloor>log 2 x\<rfloor>"
  have bx: "2 powi e \<le> x" "x < 2 powi (e + 1)"
    using binade[OF x] by (simp_all add: e_def)
  define m where "m = round_even (x / 2 powi (e - 52))"
  have dx: "double x = real_of_int m * 2 powi (e - 52)"
    unfolding m_def by (rule double_binade[OF x bx])
  have mr: "2 ^ 52 \<le> m" "m \<le> 2 ^ 53"
    using mantissa_range[OF x bx] by (simp_all add: m_def)
  have pos: "0 < double x" using x by (rule double_pos)
  show ?thesis
  proof (cases "m = 2 ^ 53")
    case True
    have v: "double x = 2 powi (e + 1)"
      unfolding dx True pow_split53[of e] by simp
    have one: "(2::real) powi (e + 1) < 2 powi (e + 1 + 1)"
      by (intro power_int_strict_increasing) simp_all
    have "double (2 powi (e + 1)) =
        real_of_int (round_even (2 powi (e + 1) / 2 powi (e + 1 - 52))) * 2 powi (e + 1 - 52)"
      using one by (intro double_binade) simp_all
    moreover have "(2::real) powi (e + 1) / 2 powi (e + 1 - 52) = real_of_int (2 ^ 52)"
      unfolding pow_split52[of "e + 1"] by simp
    ultimately have "double (2 powi (e + 1)) = real_of_int (2 ^ 52) * 2 powi (e + 1 - 52)"
      by (simp only: round_even_of_int)
    also have "\<dots> = 2 powi (e + 1)"
      unfolding pow_split52[of "e + 1"] by simp
    finally show ?thesis by (simp add: v)
  next
    case False
    with mr have lt: "m < 2 ^ 53" by simp
    have lo: "2 powi e \<le> double x"
      using double_range[OF x bx] by simp
    have "real_of_int m < real_of_int (2 ^ 53)"
      using lt by (simp only: of_int_less_iff)
    then have "real_of_int m * 2 powi (e - 52) < 2 ^ 53 * 2 powi (e - 52)"
      by simp
    then have hi: "double x < 2 powi (e + 1)"
      unfolding dx pow_split53[of e] .
    have "double x / 2 powi (e - 52) = real_of_int m"
      by (simp add: dx)
    then have "double (double x) = real_of_int (round_even (real_of_int m)) * 2 powi (e - 52)"
      using double_binade[OF pos lo hi] by simp
    then show ?thesis
      by (simp only: round_even_of_int dx)
  qed
qed


text \<open>Whole numbers below \<open>2^53\<close> are added and multiplied exactly.\<close>

lemma double_whole:
  assumes "0 \<le> n" "n < 2 ^ 53"
  shows "double (of_int n) = of_int n"
proof (cases "n = 0")
  case True
  then show ?thesis by (simp add: double_zero)
next
  case False
  with assms have "0 < n" by simp
  then show ?thesis
    using double_dyadic[of n 0] assms(2) by simp
qed

lemma js_plus_exact: "0 \<le> a + b \<Longrightarrow> a + b < 2 ^ 53 \<Longrightarrow> js_plus a b = a + b"
  using double_whole[of "a + b"] by (simp add: js_plus_def)

lemma js_times_exact:
  assumes "0 \<le> a * b" "a * b < 2 ^ 53"
  shows "js_times a b = a * b"
proof -
  have "double (of_int (a * b)) = of_int (a * b)"
    using assms by (rule double_whole)
  then have "\<lfloor>double (of_int a * of_int b)\<rfloor> = \<lfloor>real_of_int (a * b)\<rfloor>"
    by simp
  then show ?thesis
    unfolding js_times_def by (simp only: floor_of_int)
qed

text \<open>
  Evaluation of \<open>double\<close> at a numeral or a quotient of numerals between \<open>1/64\<close> and
  \<open>128\<close>.
\<close>

lemma double_one: "double 1 = 1"
  using double_binade[of 1 0] by (simp add: round_even_def)

lemma double_quotient:
  assumes "0 < (numeral a / numeral b :: real)" "2 powi e \<le> (numeral a / numeral b :: real)"
    "(numeral a / numeral b :: real) < 2 powi (e + 1)"
  shows "double (numeral a / numeral b) =
     of_int (round_even (numeral a / numeral b / 2 powi (e - 52))) * 2 powi (e - 52)"
  using assms by (rule double_binade)

lemma double_reciprocal:
  assumes "0 < (1 / numeral b :: real)" "2 powi e \<le> (1 / numeral b :: real)"
    "(1 / numeral b :: real) < 2 powi (e + 1)"
  shows "double (1 / numeral b) =
     of_int (round_even (1 / numeral b / 2 powi (e - 52))) * 2 powi (e - 52)"
  using assms by (rule double_binade)

lemma double_numeral:
  assumes "0 < (numeral a :: real)" "2 powi e \<le> (numeral a :: real)"
    "(numeral a :: real) < 2 powi (e + 1)"
  shows "double (numeral a) = of_int (round_even (numeral a / 2 powi (e - 52))) * 2 powi (e - 52)"
  using assms by (rule double_binade)

lemmas double_eval =
  double_zero double_one double_quotient[where e = "- 6"] double_quotient[where e = "- 5"]
  double_quotient[where e = "- 4"] double_quotient[where e = "- 3"]
  double_quotient[where e = "- 2"] double_quotient[where e = "- 1"]
  double_quotient[where e = 0] double_quotient[where e = 1] double_quotient[where e = 2]
  double_quotient[where e = 3] double_quotient[where e = 4] double_quotient[where e = 5]
  double_quotient[where e = 6] double_reciprocal[where e = "- 6"]
  double_reciprocal[where e = "- 5"] double_reciprocal[where e = "- 4"]
  double_reciprocal[where e = "- 3"] double_reciprocal[where e = "- 2"]
  double_reciprocal[where e = "- 1"] double_numeral[where e = 1] double_numeral[where e = 2]
  double_numeral[where e = 3] double_numeral[where e = 4] double_numeral[where e = 5]
  double_numeral[where e = 6]
  round_even_def Let_def

section \<open>Properties of the card scheduler\<close>

subsection \<open>Constants of the scheduler and rounding of whole numbers\<close>

lemma minEase_value: "minEaseFactor = 5854679515581645 / 4503599627370496"
  by (simp add: minEaseFactor_def double_eval)

lemma maxEase_value: "maxEaseFactor = 3"
  by (simp add: maxEaseFactor_def double_eval)

lemma defaultEase_value: "defaultEaseFactor = 5 / 2"
  by (simp add: defaultEaseFactor_def double_eval)

lemma double_minEase: "double minEaseFactor = minEaseFactor"
  by (simp add: minEase_value double_eval)

lemma literal_bounds:
  "double (15 / 100) \<le> 3 / 16" "0 \<le> double (15 / 100)"
  "3 / 16 \<le> double (2 / 10)" "double (2 / 10) \<le> 1 / 4"
  "1 \<le> double (12 / 10)" "1 \<le> double (13 / 10)"
  by (simp_all add: double_eval)

lemma double_fixed: "double 3 = 3" "double 21 = 21" "double (45 / 16) = 45 / 16"
  by (simp_all add: double_eval)

lemma js_round_nonneg: "0 \<le> x \<Longrightarrow> 0 \<le> js_round x"
  by (simp add: js_round_def)

lemma js_round_ge: "of_int n \<le> x \<Longrightarrow> n \<le> js_round x"
  unfolding js_round_def by linarith

text \<open>A product of at least 21 days stays at least 21 days through rounding.\<close>

lemma rounded_product_ge_21:
  fixes x f :: real
  assumes "21 \<le> x" "1 \<le> f"
  shows "21 \<le> double (x * f)"
proof -
  have "x * 1 \<le> x * f"
    using assms by (intro mult_left_mono) simp_all
  then have "x \<le> x * f" by (simp only: mult_1_right)
  then have "21 \<le> x * f" using assms(1) by linarith
  then have "double 21 \<le> double (x * f)"
    by (intro double_mono) simp_all
  then show ?thesis by (simp add: double_fixed)
qed

lemma rounded_product_nonneg:
  fixes x f :: real
  shows "0 \<le> x \<Longrightarrow> 0 \<le> f \<Longrightarrow> 0 \<le> double (x * f)"
  by (intro double_nonneg mult_nonneg_nonneg)

subsection \<open>What each branch does to ease factor, interval and status\<close>

lemma review_easeFactor:
  "easeFactor (processReview now c q) =
     (if q = AGAIN then max (double (easeFactor c - double (2 / 10))) minEaseFactor
      else max minEaseFactor (min maxEaseFactor (double (easeFactor c + easeDelta q))))"
  by (simp add: processReview_def Let_def)

lemma review_interval:
  "interval (processReview now c q) =
     (case q of AGAIN \<Rightarrow> interval c
      | HARD \<Rightarrow> js_round (double (of_int (interval c) * double (12 / 10)))
      | GOOD \<Rightarrow> js_round (double (of_int (interval c) * easeFactor (processReview now c q)))
      | EASY \<Rightarrow> js_round (double (double (of_int (interval c) *
                   easeFactor (processReview now c q)) * double (13 / 10))))"
  by (cases q) (simp_all add: processReview_def Let_def)

lemma review_status:
  "status (processReview now c q) =
     (if q = AGAIN then Learning
      else if 21 \<le> interval (processReview now c q) then Learned else status c)"
  by (cases q) (simp_all add: processReview_def Let_def)

lemma learning_easeFactor:
  "easeFactor (processLearning now c q) =
     (if q = EASY then double (easeFactor c + double (15 / 100)) else easeFactor c)"
  by (cases q) (simp_all add: processLearning_def Let_def)

lemma learning_interval:
  "interval (processLearning now c q) =
     (case q of EASY \<Rightarrow> easyInterval
      | GOOD \<Rightarrow> (if length learningSteps \<le> learningStep c + 1 then graduatingInterval
                  else interval c)
      | _ \<Rightarrow> interval c)"
  by (cases q) (simp_all add: processLearning_def Let_def)

lemma learning_status:
  "status (processLearning now c q) =
     (if q = EASY \<or> (q = GOOD \<and> length learningSteps \<le> learningStep c + 1) then Review
      else if status c = New then New
      else if status c = Review then Review else Learning)"
  by (cases q) (simp_all add: processLearning_def Let_def)

lemma lapse_easeFactor:
  assumes "minEaseFactor \<le> e" "e \<le> 3"
  shows "max (double (e - double (2 / 10))) minEaseFactor \<le> 45 / 16"
proof -
  have "1 \<le> e" using assms(1) by (simp add: minEase_value)
  then have nonneg: "0 \<le> e - double (2 / 10)"
    using literal_bounds(4) by linarith
  have "e - double (2 / 10) \<le> 45 / 16"
    using assms(2) literal_bounds(3) by linarith
  then have "double (e - double (2 / 10)) \<le> double (45 / 16)"
    using nonneg by (intro double_mono)
  then show ?thesis
    by (simp add: double_fixed minEase_value)
qed

lemma easy_graduation_easeFactor:
  assumes "minEaseFactor \<le> e" "e \<le> 45 / 16"
  shows "minEaseFactor \<le> double (e + double (15 / 100)) \<and> double (e + double (15 / 100)) \<le> 3"
proof -
  have pos: "0 \<le> minEaseFactor" by (simp add: minEase_value)
  have "minEaseFactor \<le> e + double (15 / 100)"
    using assms(1) literal_bounds(2) by linarith
  then have "double minEaseFactor \<le> double (e + double (15 / 100))"
    using pos by (intro double_mono)
  then have lo: "minEaseFactor \<le> double (e + double (15 / 100))"
    by (simp add: double_minEase)
  have "0 \<le> e + double (15 / 100)"
    using assms(1) pos literal_bounds(2) by linarith
  moreover have "e + double (15 / 100) \<le> 3"
    using assms(2) literal_bounds(1) by linarith
  ultimately have "double (e + double (15 / 100)) \<le> double 3"
    by (intro double_mono)
  then show ?thesis using lo by (simp add: double_fixed)
qed

lemma review_easeFactor_bounds:
  "minEaseFactor \<le> easeFactor (processReview now c q) \<and>
   (minEaseFactor \<le> easeFactor c \<and> easeFactor c \<le> maxEaseFactor \<longrightarrow>
      easeFactor (processReview now c q) \<le> maxEaseFactor \<and>
      (q = AGAIN \<longrightarrow> easeFactor (processReview now c q) \<le> 45 / 16))"
proof (cases "q = AGAIN")
  case True
  then show ?thesis
    using lapse_easeFactor[of "easeFactor c"]
    by (auto simp: review_easeFactor maxEase_value)
next
  case False
  then show ?thesis
    by (simp add: review_easeFactor maxEase_value minEase_value)
qed

lemma review_interval_nonneg:
  assumes "0 \<le> interval c"
  shows "0 \<le> interval (processReview now c q)"
proof -
  have e: "0 \<le> easeFactor (processReview now c q)"
    using review_easeFactor_bounds[of now c q] by (simp add: minEase_value)
  have i: "(0::real) \<le> of_int (interval c)" using assms by simp
  have l: "0 \<le> double (12 / 10)" "0 \<le> double (13 / 10)"
    using literal_bounds(5,6) by linarith+
  show ?thesis
  proof (cases q)
    case AGAIN
    with assms show ?thesis by (simp add: review_interval)
  next
    case HARD
    then show ?thesis
      using rounded_product_nonneg[OF i l(1)] by (simp add: review_interval js_round_nonneg)
  next
    case GOOD
    then show ?thesis
      using rounded_product_nonneg[OF i e] by (simp add: review_interval js_round_nonneg)
  next
    case EASY
    then show ?thesis
      using rounded_product_nonneg[OF rounded_product_nonneg[OF i e] l(2)]
      by (simp add: review_interval js_round_nonneg)
  qed
qed

lemma review_interval_stays_21:
  assumes "21 \<le> interval c" "q \<noteq> AGAIN"
  shows "21 \<le> interval (processReview now c q)"
proof -
  have e: "1 \<le> easeFactor (processReview now c q)"
    using review_easeFactor_bounds[of now c q] by (simp add: minEase_value)
  have i: "(21::real) \<le> of_int (interval c)" using assms(1) by simp
  have r: "21 \<le> js_round x" if "21 \<le> x" for x
    using that js_round_ge[of 21 x] by simp
  show ?thesis
  proof (cases q)
    case AGAIN
    with assms show ?thesis by simp
  next
    case HARD
    then show ?thesis
      using r[OF rounded_product_ge_21[OF i literal_bounds(5)]] by (simp add: review_interval)
  next
    case GOOD
    then show ?thesis
      using r[OF rounded_product_ge_21[OF i e]] by (simp add: review_interval)
  next
    case EASY
    then show ?thesis
      using r[OF rounded_product_ge_21[OF rounded_product_ge_21[OF i e] literal_bounds(6)]]
      by (simp add: review_interval)
  qed
qed

lemma answerAll_snoc: "answerAll c (qs @ [(q, now)]) = processAnswer now (answerAll c qs) q"
  by (simp add: answerAll_def)

subsection \<open>The bounds are preserved by every answer\<close>

lemma sm2_inv_createCard: "sm2_inv (createCard now w)"
  by (simp add: sm2_inv_def createCard_def defaultEase_value minEase_value maxEase_value)

lemma sm2_inv_processLearning:
  assumes "sm2_inv c" "status c = New \<or> status c = Learning"
  shows "sm2_inv (processLearning now c q)"
proof (cases "q = EASY")
  case True
  then show ?thesis
    using assms easy_graduation_easeFactor[of "easeFactor c"]
    by (simp add: sm2_inv_def learning_easeFactor learning_interval learning_status
        maxEase_value easyInterval_def)
next
  case False
  then show ?thesis
    using assms
    by (cases q)
       (auto simp: sm2_inv_def learning_easeFactor learning_interval learning_status
          graduatingInterval_def)
qed

lemma sm2_inv_processReview:
  "sm2_inv c \<Longrightarrow> \<not> (status c = New \<or> status c = Learning) \<Longrightarrow>
   sm2_inv (processReview now c q)"
  using review_easeFactor_bounds[of now c q] review_interval_nonneg[of c now q]
  by (auto simp: sm2_inv_def review_status)

lemma sm2_inv_lastReview: "sm2_inv (c\<lparr>lastReview := t\<rparr>) = sm2_inv c"
  by (simp add: sm2_inv_def)

lemma sm2_inv_processAnswer: "sm2_inv c \<Longrightarrow> sm2_inv (processAnswer now c q)"
  unfolding processAnswer_def Let_def
  by (simp add: sm2_inv_processLearning sm2_inv_processReview sm2_inv_lastReview)

lemma sm2_inv_answerAll: "sm2_inv c \<Longrightarrow> sm2_inv (answerAll c qs)"
  by (induction qs rule: rev_induct)
     (auto simp: answerAll_snoc sm2_inv_processAnswer answerAll_def)

subsection \<open>Status and the 21-day threshold\<close>

lemma learned_inv_createCard: "learned_inv (createCard now w)"
  by (simp add: learned_inv_def createCard_def)

lemma learned_inv_processLearning:
  "learned_inv c \<Longrightarrow> status c = New \<or> status c = Learning \<Longrightarrow>
   learned_inv (processLearning now c q)"
  unfolding learned_inv_def learning_interval learning_status
  by (cases q) (auto simp: graduatingInterval_def easyInterval_def)

lemma learned_inv_processReview:
  assumes "learned_inv c" "\<not> (status c = New \<or> status c = Learning)"
  shows "learned_inv (processReview now c q)"
proof (cases "q = AGAIN")
  case True
  then show ?thesis
    using assms by (simp add: learned_inv_def review_status review_interval)
next
  case False
  have nn: "0 \<le> interval (processReview now c q)"
    using assms(1) by (intro review_interval_nonneg) (simp add: learned_inv_def)
  have "status c = Learned \<longrightarrow> 21 \<le> interval (processReview now c q)"
    using assms(1) False by (auto simp: learned_inv_def intro: review_interval_stays_21)
  then show ?thesis
    using assms False nn by (auto simp: learned_inv_def review_status)
qed

lemma learned_inv_lastReview: "learned_inv (c\<lparr>lastReview := t\<rparr>) = learned_inv c"
  by (simp add: learned_inv_def)

lemma learned_inv_processAnswer: "learned_inv c \<Longrightarrow> learned_inv (processAnswer now c q)"
  unfolding processAnswer_def Let_def
  by (simp add: learned_inv_processLearning learned_inv_processReview learned_inv_lastReview)

lemma learned_inv_answerAll: "learned_inv c \<Longrightarrow> learned_inv (answerAll c qs)"
  by (induction qs rule: rev_induct)
     (auto simp: answerAll_snoc learned_inv_processAnswer answerAll_def)

lemmas sm2_eval =
  answerAll_def createCard_def processAnswer_def processLearning_def processReview_def
  Let_def learningSteps_def graduatingInterval_def easyInterval_def defaultEaseFactor_def
  minEaseFactor_def maxEaseFactor_def easeDelta_def js_round_def double_eval

text \<open>
  The rounding is visible on short runs. After \<open>GOOD, GOOD, AGAIN, EASY\<close> the ease factor
  is the binary64 sum of 2.3 and 0.15, just below 2.45, and two further \<open>GOOD\<close> answers
  give intervals of 10 and then 24 days (exact arithmetic would give 25).
\<close>

lemma rounding_visible:
  "easeFactor (answerAll (createCard 0 ''cat'') [(GOOD, 1), (GOOD, 2), (AGAIN, 3), (EASY, 4)]) =
     5516909543528857 / 2251799813685248 \<and>
   interval (answerAll (createCard 0 ''cat'')
     [(GOOD, 1), (GOOD, 2), (AGAIN, 3), (EASY, 4), (GOOD, 5), (GOOD, 6)]) = 24"
  by (simp add: sm2_eval)

text \<open>
  After \<open>EASY, AGAIN, EASY, AGAIN, GOOD, GOOD, GOOD, EASY, EASY\<close> the ease factor is just
  below 2.6 and the card is in \<open>review\<close> with an interval of 20 days (exact arithmetic
  would give 24 days and status \<open>learned\<close>).
\<close>

lemma rounding_visible_below_threshold:
  "status (answerAll (createCard 0 ''cat'')
     [(EASY, 1), (AGAIN, 2), (EASY, 3), (AGAIN, 4), (GOOD, 5), (GOOD, 6), (GOOD, 7), (EASY, 8),
      (EASY, 9)]) = Review \<and>
   interval (answerAll (createCard 0 ''cat'')
     [(EASY, 1), (AGAIN, 2), (EASY, 3), (AGAIN, 4), (GOOD, 5), (GOOD, 6), (GOOD, 7), (EASY, 8),
      (EASY, 9)]) = 20"
  by (simp add: sm2_eval)

text \<open>
  Claim C1, as the code has it. For every card reached from \<open>createCard\<close> by any sequence
  of \<open>processAnswer\<close> calls: a card with status \<open>learned\<close> has an interval of at least 21
  days, and a card with an interval of at least 21 days has status \<open>learned\<close> or, after a
  lapse, \<open>learning\<close> (the lapse branch leaves the interval as it was).
\<close>

theorem learned_threshold:
  "(status (answerAll (createCard t0 w) qs) = Learned \<longrightarrow>
      21 \<le> interval (answerAll (createCard t0 w) qs)) \<and>
   (21 \<le> interval (answerAll (createCard t0 w) qs) \<longrightarrow>
      status (answerAll (createCard t0 w) qs) = Learned \<or>
      status (answerAll (createCard t0 w) qs) = Learning)"
  using learned_inv_answerAll[OF learned_inv_createCard, of t0 w qs]
  by (cases "status (answerAll (createCard t0 w) qs)") (auto simp: learned_inv_def)

text \<open>Three \<open>EASY\<close> answers on a fresh card reach \<open>learned\<close>, with an interval of 52 days.\<close>

theorem learned_threshold_witness:
  "status (answerAll (createCard 0 ''cat'') [(EASY, 1), (EASY, 2), (EASY, 3)]) = Learned \<and>
   interval (answerAll (createCard 0 ''cat'') [(EASY, 1), (EASY, 2), (EASY, 3)]) = 52"
  using learned_threshold[of 0 "''cat''" "[(EASY, 1), (EASY, 2), (EASY, 3)]"]
  by (simp add: sm2_eval)

text \<open>
  The equivalence of claim C1 fails after a lapse: \<open>EASY, EASY, EASY, AGAIN\<close> leaves a card
  of status \<open>learning\<close> whose interval is still 52 days.
\<close>

theorem learned_iff_counterexample:
  "status (answerAll (createCard 0 ''cat'') [(EASY, 1), (EASY, 2), (EASY, 3), (AGAIN, 4)]) = Learning \<and>
   interval (answerAll (createCard 0 ''cat'') [(EASY, 1), (EASY, 2), (EASY, 3), (AGAIN, 4)]) = 52 \<and>
   \<not> (status (answerAll (createCard 0 ''cat'') [(EASY, 1), (EASY, 2), (EASY, 3), (AGAIN, 4)]) = Learned
      \<longleftrightarrow> 21 \<le> interval (answerAll (createCard 0 ''cat'') [(EASY, 1), (EASY, 2), (EASY, 3), (AGAIN, 4)]))"
proof -
  have s: "status (answerAll (createCard 0 ''cat'')
      [(EASY, 1), (EASY, 2), (EASY, 3), (AGAIN, 4)]) = Learning"
    by (simp add: sm2_eval)
  have i: "interval (answerAll (createCard 0 ''cat'')
      [(EASY, 1), (EASY, 2), (EASY, 3), (AGAIN, 4)]) = 52"
    by (simp add: sm2_eval)
  show ?thesis
    unfolding s i by simp
qed

text \<open>
  Claim C2. For every card created by \<open>createCard\<close> and every finite sequence of quality
  ratings applied by \<open>processAnswer\<close>, the ease factor lies between the binary64 numbers
  \<open>1.3\<close> and \<open>3.0\<close> (so also between the reals 1.3 and 3) and the interval is not
  negative. The sequence is arbitrary, so this holds after every step.
\<close>

theorem sm2_bounds:
  "double (13 / 10) \<le> easeFactor (answerAll (createCard t0 w) qs) \<and>
   easeFactor (answerAll (createCard t0 w) qs) \<le> double 3 \<and>
   13 / 10 \<le> easeFactor (answerAll (createCard t0 w) qs) \<and>
   easeFactor (answerAll (createCard t0 w) qs) \<le> 3 \<and>
   0 \<le> interval (answerAll (createCard t0 w) qs)"
proof -
  have inv: "sm2_inv (answerAll (createCard t0 w) qs)"
    by (rule sm2_inv_answerAll[OF sm2_inv_createCard])
  have "(13 / 10 :: real) \<le> minEaseFactor"
    by (simp add: minEase_value)
  then show ?thesis
    using inv by (simp add: sm2_inv_def minEaseFactor_def[symmetric] maxEaseFactor_def[symmetric] maxEase_value)
qed

text \<open>
  Claim C8. A fresh card (status \<open>new\<close>, ease factor 2.5, interval 0) answered
  \<open>GOOD, GOOD\<close> is in \<open>review\<close> with interval 1; the following \<open>EASY\<close> raises the ease
  factor to 2.6 (the binary64 number that the literal \<open>2.6\<close> denotes) and sets the interval
  to \<open>round(1 * 2.6 * 1.3) = 3\<close> days.
\<close>

theorem good_good_easy_scenario:
  "status (createCard t0 w) = New \<and> easeFactor (createCard t0 w) = 5 / 2 \<and>
   interval (createCard t0 w) = 0 \<and>
   status (answerAll (createCard t0 w) [(GOOD, t1), (GOOD, t2)]) = Review \<and>
   interval (answerAll (createCard t0 w) [(GOOD, t1), (GOOD, t2)]) = 1 \<and>
   easeFactor (answerAll (createCard t0 w) [(GOOD, t1), (GOOD, t2), (EASY, t3)]) =
     double (26 / 10) \<and>
   interval (answerAll (createCard t0 w) [(GOOD, t1), (GOOD, t2), (EASY, t3)]) =
     js_round (double (double (1 * double (26 / 10)) * double (13 / 10))) \<and>
   interval (answerAll (createCard t0 w) [(GOOD, t1), (GOOD, t2), (EASY, t3)]) = 3"
  by (simp add: sm2_eval)

text \<open>
  Claim C10. A card of status \<open>new\<close> answered \<open>AGAIN\<close> or \<open>HARD\<close>, or \<open>GOOD\<close> while the
  incremented learning step is below the ladder length, keeps status \<open>new\<close>; and a card
  whose status becomes \<open>learning\<close> was in review (\<open>review\<close> or \<open>learned\<close>) and was
  answered \<open>AGAIN\<close>.
\<close>

theorem new_stays_new:
  "(status c = New \<and>
      (q = AGAIN \<or> q = HARD \<or> (q = GOOD \<and> learningStep c + 1 < length learningSteps)) \<longrightarrow>
      status (processAnswer now c q) = New) \<and>
   (status c \<noteq> Learning \<and> status (processAnswer now c q) = Learning \<longrightarrow>
      (status c = Review \<or> status c = Learned) \<and> q = AGAIN)"
  by (cases "status c")
     (auto simp: processAnswer_def Let_def learning_status review_status split: if_splits)

text \<open>
  A fresh card answered \<open>GOOD\<close> stays \<open>new\<close>; a card graduated by \<open>EASY\<close> and then
  answered \<open>AGAIN\<close> enters \<open>learning\<close>.
\<close>

theorem new_stays_new_witness:
  "(status (createCard 0 ''cat'') = New \<and>
    learningStep (createCard 0 ''cat'') + 1 < length learningSteps \<and>
    status (processAnswer 1 (createCard 0 ''cat'') GOOD) = New) \<and>
   (status (processAnswer 1 (createCard 0 ''cat'') EASY) = Review \<and>
    status (processAnswer 2 (processAnswer 1 (createCard 0 ''cat'') EASY) AGAIN) = Learning)"
  using new_stays_new[of "createCard 0 ''cat''" GOOD 1]
    new_stays_new[of "processAnswer 1 (createCard 0 ''cat'') EASY" AGAIN 2]
  by (simp add: sm2_eval)

section \<open>Properties of the review session\<close>

lemma swap_pair: "j < 2 \<Longrightarrow> [c, c][Suc 0 := [c, c] ! j, j := [c, c] ! Suc 0] = [c, c]"
  by (cases j) auto

lemma shuffle_pair: "shuffleArray rnd [c, c] = [c, c]"
proof -
  have "rnd (Suc 0) mod 2 < 2" by (rule mod_less_divisor) simp
  then have "[c, c][Suc 0 := [c, c] ! (rnd (Suc 0) mod 2),
                   rnd (Suc 0) mod 2 := [c, c] ! Suc 0] = [c, c]"
    by (rule swap_pair)
  moreover have "shuffleArray rnd [c, c] =
      [c, c][Suc 0 := [c, c] ! (rnd (Suc 0) mod 2), rnd (Suc 0) mod 2 := [c, c] ! Suc 0]"
    by (simp add: shuffleArray_def Let_def numeral_2_eq_2)
  ultimately show ?thesis by simp
qed

text \<open>
  Claim C9. A card from \<open>createCard\<close> has \<open>nextReview\<close> equal to its creation time, so it
  is due at once. For the collection holding one fresh card, any mode, any limit of at
  least 2 and any shuffle, \<open>startSession\<close> draws the card once into the due list and once
  into the new list, and the session queue holds it at both of its positions.
\<close>

theorem fresh_card_twice:
  assumes "t0 \<le> now" "2 \<le> limit"
  shows "nextReview (createCard t0 w) = t0 \<and>
    getDueCards [vocab_createCard t0 w] m now = [vocab_createCard t0 w] \<and>
    getNewCards [vocab_createCard t0 w]
      (limit - min (int (length (getDueCards [vocab_createCard t0 w] m now))) limit) =
      [vocab_createCard t0 w] \<and>
    session_cards (startSession rnd [vocab_createCard t0 w] m limit now) =
      [vocab_createCard t0 w, vocab_createCard t0 w]"
proof -
  have due: "getDueCards [vocab_createCard t0 w] m now = [vocab_createCard t0 w]"
    using assms(1) by (simp add: getDueCards_def modeKey_def vocab_createCard_def createCard_def)
  have new: "getNewCards [vocab_createCard t0 w] (limit - min 1 limit) = [vocab_createCard t0 w]"
    using assms(2) by (simp add: getNewCards_def js_slice0_def vocab_createCard_def createCard_def)
  have cut: "js_slice0 (js_slice0 [vocab_createCard t0 w] limit @ [vocab_createCard t0 w]) limit =
      [vocab_createCard t0 w, vocab_createCard t0 w]"
    using assms(2) by (simp add: js_slice0_def nat_le_iff take_Cons')
  show ?thesis
    using due new cut by (simp add: startSession_def Let_def shuffle_pair createCard_def)
qed

text \<open>The card for \<open>cat\<close> created at time 0, in a receptive session of limit 20 started at time 5.\<close>

theorem fresh_card_twice_witness:
  "(0::int) \<le> 5 \<and> (2::int) \<le> 20 \<and>
   session_cards (startSession (\<lambda>i. 0) [vocab_createCard 0 ''cat''] RECEPTIVE 20 5) =
     [vocab_createCard 0 ''cat'', vocab_createCard 0 ''cat'']"
  using fresh_card_twice[of 0 5 20 "''cat''" RECEPTIVE "\<lambda>i. 0"] by simp

section \<open>Properties of the topic state machine\<close>

lemma determine_updatePhases_passing:
  assumes "passingCall p d"
  shows "phase_index (determineCurrentPhase pr) \<le>
         phase_index (determineCurrentPhase
           (pr\<lparr> topic_phases := updatePhases (topic_phases pr) p d now \<rparr>))"
  using assms
  by (cases p)
     (auto simp: passingCall_def determineCurrentPhase_def updatePhases_def Let_def
        practiceDone_def produceDone_def split: option.splits)

lemma determine_completed:
  "determineCurrentPhase (pr\<lparr> completedAt := a, acquired := b \<rparr>) = determineCurrentPhase pr"
  by (simp add: determineCurrentPhase_def)

lemma determine_completeProgress:
  "determineCurrentPhase (completeProgress pr p d now) =
   determineCurrentPhase (pr\<lparr> topic_phases := updatePhases (topic_phases pr) p d now \<rparr>)"
  by (simp add: completeProgress_def Let_def determine_completed)

lemma determine_failing:
  assumes "\<not> passingCall p d"
  shows "determineCurrentPhase (pr\<lparr> topic_phases := updatePhases (topic_phases pr) p d now \<rparr>) =
     (if phase_index (determineCurrentPhase pr) \<le> phase_index PRACTICE
      then determineCurrentPhase pr else PRACTICE)"
  using assms
  by (cases p)
     (auto simp: passingCall_def determineCurrentPhase_def updatePhases_def Let_def
        practiceDone_def produceDone_def split: option.splits)

lemmas grammar_eval =
  practisedGrammar_def completePhase_def practisedProgress_def completeProgress_def
  updatePhases_def isTopicCompleted_def defaultProgress_def noData_def scoreData_def
  determineCurrentPhase_def Let_def practiceDone_def produceDone_def passingCall_def

text \<open>
  Claim C3, as the code has it. A successful \<open>completePhase\<close> call returns the phase
  derived from the updated record. Unless the call is a practice submission with a score
  below 0.7 (or without a score), that phase is not earlier in the fixed order than the
  phase derived before the call. A practice submission below 0.7 clears
  \<open>practice.completed\<close>: the derived phase stays where it was when that was \<open>practice\<close> or
  earlier, and returns to \<open>practice\<close> otherwise.
\<close>

theorem completePhase_order:
  assumes "completePhase g p d now = Inr (Success pr' nxt fin, g')"
    and "currentTopic g = Some t" and "progress g t = Some pr"
  shows "nxt = determineCurrentPhase pr' \<and> progress g' t = Some pr' \<and>
    (passingCall p d \<longrightarrow> phase_index (determineCurrentPhase pr) \<le> phase_index nxt) \<and>
    (\<not> passingCall p d \<longrightarrow>
       nxt = (if phase_index (determineCurrentPhase pr) \<le> phase_index PRACTICE
              then determineCurrentPhase pr else PRACTICE))"
proof -
  have t: "t \<noteq> []"
    using assms by (auto simp: completePhase_def)
  have pr': "pr' = completeProgress pr p d now" and nxt: "nxt = determineCurrentPhase pr'"
    and g': "progress g' t = Some pr'"
    using assms t by (auto simp: completePhase_def Let_def)
  show ?thesis
    using nxt g' determine_updatePhases_passing[of p d pr now] determine_failing[of p d pr now]
    by (simp add: pr' determine_completeProgress)
qed

text \<open>On the practised topic, completing \<open>produce\<close> moves the derived phase on to \<open>input_flood\<close>.\<close>

theorem completePhase_order_witness:
  "(case completePhase practisedGrammar PRODUCE noData 1 of
      Inr (Success pr' nxt fin, g') \<Rightarrow> nxt = INPUT_FLOOD \<and> passingCall PRODUCE noData \<and>
        phase_index (determineCurrentPhase practisedProgress) \<le> phase_index nxt
    | _ \<Rightarrow> False)"
  using completePhase_order[of practisedGrammar PRODUCE noData 1
      "completeProgress practisedProgress PRODUCE noData 1" INPUT_FLOOD False
      "practisedGrammar\<lparr> progress := (progress practisedGrammar)(''a1_to_be'' \<mapsto>
          completeProgress practisedProgress PRODUCE noData 1),
          currentPhase := Some INPUT_FLOOD \<rparr>"
      "''a1_to_be''" practisedProgress]
  by (simp add: grammar_eval)

text \<open>
  Claim C3 as stated fails: on the practised topic the derived phase is \<open>produce\<close>; a
  further practice submission with score 0.5 returns \<open>practice\<close>, which is earlier.
\<close>

theorem completePhase_backward_counterexample:
  "determineCurrentPhase practisedProgress = PRODUCE \<and>
   (case completePhase practisedGrammar PRACTICE (scoreData (5 / 10)) 1 of
      Inr (Success pr' nxt fin, g') \<Rightarrow>
        nxt = PRACTICE \<and> phase_index nxt < phase_index (determineCurrentPhase practisedProgress)
    | _ \<Rightarrow> False)"
  by (simp add: grammar_eval)

section \<open>Properties of the placement engine\<close>

subsection \<open>Question selection\<close>

lemma firstSelected_None:
  "(\<forall>l \<in> set ls. selectQuestion r bs sec l used = None) \<Longrightarrow>
   firstSelected r bs sec used ls = None"
  by (induction ls) auto

lemma not_stuck_if_returns:
  assumes "getNextQuestion r p = Some y"
  shows "\<not> stuck r p"
  apply (rule getNextQuestion.raw_induct[where P = "\<lambda>r p y. \<not> stuck r p", OF _ assms])
  subgoal premises prems for f r p ra
  proof
    assume st: "stuck r p"
    then obtain s where s: "testSession p = Some s"
      by (auto simp: stuck_def split: option.splits)
    from st s prems(2) have "f r p = Some ra"
      by (simp add: stuck_def Let_def)
    with prems(1) st show False by blast
  qed
  done

lemma getNextQuestion_stuck: "stuck r p \<Longrightarrow> getNextQuestion r p = None"
  using not_stuck_if_returns[of r p] by (cases "getNextQuestion r p") auto

text \<open>
  Claim C4 fails on the code. With no bank loaded, the first \<open>getNextQuestion\<close> of a
  started test finds no question at the current level nor at distance 1 or 2, and calls
  itself on the unchanged session, so on the same section, without end: it returns neither
  a question nor the finished marker.
\<close>

theorem no_banks_never_returns:
  "getNextQuestion r (startTest now \<lparr> testSession = None, questionBanks = emptyBanks \<rparr>) = None"
  by (rule getNextQuestion_stuck)
     (simp add: stuck_def startTest_def newSession_def maxQuestions_def shouldEndTest_def
        minQuestions_def selectQuestion_def emptyBanks_def firstSelected_None)

subsection \<open>End of the test\<close>

lemma length_remdups_one:
  "length (remdups xs) = Suc 0 \<longleftrightarrow> xs \<noteq> [] \<and> (\<forall>a \<in> set xs. \<forall>b \<in> set xs. a = b)"
proof -
  have "length (remdups xs) = card (set xs)"
    by (simp add: length_remdups_card_conv)
  moreover have "card (set xs) = 1 \<longleftrightarrow> xs \<noteq> [] \<and> (\<forall>a \<in> set xs. \<forall>b \<in> set xs. a = b)"
  proof
    assume "card (set xs) = 1"
    then obtain x where "set xs = {x}" by (auto simp: card_1_singleton_iff)
    then show "xs \<noteq> [] \<and> (\<forall>a \<in> set xs. \<forall>b \<in> set xs. a = b)" by auto
  next
    assume a: "xs \<noteq> [] \<and> (\<forall>a \<in> set xs. \<forall>b \<in> set xs. a = b)"
    then obtain x where "x \<in> set xs" by (cases xs) auto
    with a have "set xs = {x}" by auto
    then show "card (set xs) = 1" by simp
  qed
  ultimately show ?thesis by simp
qed

lemma set_last_window: "set (take n (rev xs)) = set (js_slice_last n xs)"
  by (simp add: js_slice_last_def take_rev)

lemma shouldEndTest_iff:
  "shouldEndTest s \<longleftrightarrow>
     50 \<le> questionCount s \<and> 10 \<le> length (levelHistory s) \<and>
     (\<forall>a \<in> set (take 10 (rev (levelHistory s))).
        \<forall>b \<in> set (take 10 (rev (levelHistory s))). h_level a = h_level b)"
proof (cases "50 \<le> questionCount s \<and> 10 \<le> length (levelHistory s)")
  case False
  then show ?thesis
    by (auto simp: shouldEndTest_def minQuestions_def stabilityWindow_def js_slice_last_def
        Let_def)
next
  case True
  then have ne: "js_slice_last 10 (levelHistory s) \<noteq> []"
    by (auto simp: js_slice_last_def)
  from True have len: "\<not> length (js_slice_last 10 (levelHistory s)) < 10"
    by (simp add: js_slice_last_def)
  show ?thesis
    using True ne len
    by (simp add: shouldEndTest_def minQuestions_def stabilityWindow_def Let_def
        length_remdups_one set_last_window)
qed

lemma finished_iff_ends:
  "(maxQuestions \<le> questionCount s \<or> shouldEndTest s) = spec_testEnds s"
  by (simp add: spec_testEnds_def shouldEndTest_iff maxQuestions_def)

lemma ask_not_finished: "fst (ask q sec s p) \<noteq> Finished"
  by (simp add: ask_def Let_def split: prod.splits)

lemma finished_only_if_ends:
  assumes "getNextQuestion r p = Some y"
  shows "\<forall>s. testSession p = Some s \<longrightarrow> fst y = Finished \<longrightarrow> spec_testEnds s"
  apply (rule getNextQuestion.raw_induct[where
        P = "\<lambda>r p y. \<forall>s. testSession p = Some s \<longrightarrow> fst y = Finished \<longrightarrow> spec_testEnds s",
        OF _ assms])
  subgoal premises prems for f r p ra
  proof (intro allI impI)
    fix s
    assume s: "testSession p = Some s" and fin: "fst ra = Finished"
    show "spec_testEnds s"
    proof (rule ccontr)
      assume ne: "\<not> spec_testEnds s"
      then have nf: "\<not> (maxQuestions \<le> questionCount s \<or> shouldEndTest s)"
        using finished_iff_ends[of s] by simp
      from prems(2) s nf have "f r p = Some ra"
        using fin ask_not_finished
        by (auto simp: Let_def split: option.splits)
      with prems(1) s fin ne show False by blast
    qed
  qed
  done

lemmas placement_eval =
  askAndAnswer_def getNextQuestion.simps freshTest_def startTest_def newSession_def
  exampleBanks_def exampleQuestion_def maxQuestions_def minQuestions_def shouldEndTest_def
  sections_def selectQuestion_def makeQId_def ask_def formatQuestion_def submitAnswer_def
  recordAnswer_def adaptLevel_def js_slice_last_def levels_def adaptiveThreshold_def
  moveDownThreshold_def stabilityWindow_def Let_def

text \<open>
  With a test session in place, \<open>getNextQuestion\<close> returns the finished marker when the
  end condition holds, and no call of it returns the marker when it does not.
\<close>

lemma finished_exactly_when_ended:
  assumes "testSession p = Some s"
  shows "(spec_testEnds s \<longrightarrow> getNextQuestion r p = Some (Finished, p)) \<and>
         (\<not> spec_testEnds s \<longrightarrow> (\<forall>y. getNextQuestion r p = Some y \<longrightarrow> fst y \<noteq> Finished))"
proof (intro conjI impI allI)
  assume "spec_testEnds s"
  then have "maxQuestions \<le> questionCount s \<or> shouldEndTest s"
    using finished_iff_ends[of s] by simp
  then show "getNextQuestion r p = Some (Finished, p)"
    using assms by (subst getNextQuestion.simps) simp
next
  fix y
  assume "\<not> spec_testEnds s" "getNextQuestion r p = Some y"
  then show "fst y \<noteq> Finished"
    using finished_only_if_ends[of r p y] assms by blast
qed

lemma ask_asks:
  "\<exists>f s'. ask q sec s p = (Question f, p\<lparr> testSession := Some s' \<rparr>) \<and>
     questionCount s' = questionCount s + 1 \<and> f_questionNumber f = questionCount s + 1"
proof -
  obtain f s' where fs: "formatQuestion q sec (questionCount s) s = (f, s')"
    by (cases "formatQuestion q sec (questionCount s) s") blast
  then have "questionCount s' = questionCount s + 1" "f_questionNumber f = questionCount s + 1"
    by (auto simp: formatQuestion_def Let_def)
  moreover have "ask q sec s p = (Question f, p\<lparr> testSession := Some s' \<rparr>)"
    using fs by (simp add: ask_def)
  ultimately show ?thesis by blast
qed

text \<open>
  While the end condition does not hold, the test goes on with a next question whenever
  the section of the round has an unused question at the current level or at distance 1
  or 2 from it.
\<close>

lemma continues_unless_stuck:
  assumes "testSession p = Some s" and "\<not> spec_testEnds s" and "\<not> stuck r p"
  shows "\<exists>f s'. getNextQuestion r p = Some (Question f, p\<lparr> testSession := Some s' \<rparr>) \<and>
     questionCount s' = questionCount s + 1 \<and> f_questionNumber f = questionCount s + 1"
proof -
  define sec where "sec = sections ! (questionCount s mod length sections)"
  have nf: "\<not> (maxQuestions \<le> questionCount s \<or> shouldEndTest s)"
    using finished_iff_ends[of s] assms(2) by simp
  have "selectQuestion r (questionBanks p) sec (currentLevel s) (usedQuestionIds s) \<noteq> None \<or>
      firstSelected r (questionBanks p) sec (usedQuestionIds s)
        (adjacentLevels (currentLevel s)) \<noteq> None"
    using assms(1,3) nf by (auto simp: stuck_def sec_def)
  then have "\<exists>q. getNextQuestion r p = Some (ask q sec s p)"
    using assms(1) nf
    by (subst getNextQuestion.simps) (auto simp: Let_def sec_def split: option.splits)
  then obtain q where "getNextQuestion r p = Some (ask q sec s p)" by blast
  then show ?thesis
    using ask_asks[of q sec s p] by auto
qed


subsection \<open>Level adaptation\<close>

lemma levels_up: "level_index l < length levels - 1 \<Longrightarrow> levels ! (level_index l + 1) = level_up l"
  by (cases l) (simp_all add: levels_def)

lemma levels_down: "0 < level_index l \<Longrightarrow> levels ! (level_index l - 1) = level_down l"
  by (cases l) (simp_all add: levels_def)

lemma level_up_top: "\<not> level_index l < length levels - 1 \<Longrightarrow> level_up l = l"
  by (cases l) (simp_all add: levels_def)

lemma level_down_bottom: "\<not> 0 < level_index l \<Longrightarrow> level_down l = l"
  by (cases l) simp_all

lemma last_window_filter:
  "length (filter P (js_slice_last n xs)) = length (filter P (take n (rev xs)))"
  by (simp add: js_slice_last_def take_rev flip: rev_filter)

lemma filter_filter_window:
  "length (filter Q (filter P (js_slice_last n xs))) =
   length (filter Q (filter P (take n (rev xs))))"
  by (simp add: js_slice_last_def take_rev flip: rev_filter)

lemma adaptLevel_currentLevel:
  "currentLevel (adaptLevel s) = spec_adaptedLevel (answers s) (currentLevel s)"
proof -
  define cur where "cur = currentLevel s"
  define L where "L = filter (\<lambda>a. ans_level a = cur) (js_slice_last 5 (answers s))"
  define acc where "acc = real (length (filter ans_correct L)) / real (length L)"
  have len: "length (js_slice_last 5 (answers s)) < 5 \<longleftrightarrow> \<not> 5 \<le> length (answers s)"
    by (auto simp: js_slice_last_def)
  have n: "length (filter (\<lambda>a. ans_level a = cur) (take 5 (rev (answers s)))) = length L"
    unfolding L_def by (rule last_window_filter[symmetric])
  have k: "length (filter ans_correct
        (filter (\<lambda>a. ans_level a = cur) (take 5 (rev (answers s))))) =
      length (filter ans_correct L)"
    unfolding L_def by (rule filter_filter_window[symmetric])
  have spec: "spec_adaptedLevel (answers s) cur =
      (if 5 \<le> length (answers s) \<and> 3 \<le> length L
       then (if 7 / 10 \<le> acc then level_up cur
             else if acc < 4 / 10 then level_down cur else cur)
       else cur)"
    unfolding spec_adaptedLevel_def Let_def n k acc_def by (rule refl)
  have code: "currentLevel (adaptLevel s) =
      (if length (js_slice_last 5 (answers s)) < 5 then cur
       else if length L < 3 then cur
       else if acc \<ge> adaptiveThreshold
       then (if level_index cur < length levels - 1 then levels ! (level_index cur + 1) else cur)
       else if acc < moveDownThreshold
       then (if level_index cur > 0 then levels ! (level_index cur - 1) else cur)
       else cur)"
    unfolding adaptLevel_def Let_def cur_def[symmetric] L_def[symmetric] acc_def[symmetric]
    by (simp add: cur_def)
  have up: "(if level_index cur < length levels - 1 then levels ! (level_index cur + 1) else cur) =
      level_up cur"
    using levels_up[of cur] level_up_top[of cur] by simp
  have down: "(if level_index cur > 0 then levels ! (level_index cur - 1) else cur) =
      level_down cur"
    using levels_down[of cur] level_down_bottom[of cur] by simp
  show ?thesis
    unfolding cur_def[symmetric] code spec up down len adaptiveThreshold_def
      moveDownThreshold_def
    by (simp add: not_less)
qed

lemma adaptLevel_rest: "adaptLevel s = s\<lparr> currentLevel := currentLevel (adaptLevel s) \<rparr>"
  by (simp add: adaptLevel_def Let_def)

lemma adaptLevel_answers: "answers (adaptLevel s) = answers s"
  by (subst adaptLevel_rest) simp

text \<open>
  Claim C6, as the code has it. Every \<open>submitAnswer\<close> on a session with a question asked
  appends the answer and then adapts the level, after each answer and not only after every
  fifth: once 5 answers exist and at least 3 of the most recent 5 are at the current level,
  an accuracy of at least 0.7 among those moves the level up one step (C1 stays), an
  accuracy below 0.4 moves it down one step (A1 stays), and otherwise the level is kept.
\<close>

theorem adapt_after_every_answer:
  assumes "testSession p = Some s" and "questions s \<noteq> []"
  shows "\<exists>res s' a. submitAnswer i p = Inr (Some res, p\<lparr> testSession := Some s' \<rparr>) \<and>
      answers s' = answers s @ [a] \<and>
      ans_level a = asked_level (last (questions s)) \<and>
      ans_correct a = (i = q_correct (asked_question (last (questions s)))) \<and>
      currentLevel s' = spec_adaptedLevel (answers s') (currentLevel s)"
proof -
  define s1 where "s1 = recordAnswer i (last (questions s)) s"
  have cur: "currentLevel s1 = currentLevel s"
    by (simp add: s1_def recordAnswer_def Let_def)
  obtain a where a: "answers s1 = answers s @ [a]"
    "ans_level a = asked_level (last (questions s))"
    "ans_correct a = (i = q_correct (asked_question (last (questions s))))"
    by (simp add: s1_def recordAnswer_def Let_def)
  have "\<exists>res. submitAnswer i p = Inr (Some res, p\<lparr> testSession := Some (adaptLevel s1) \<rparr>)"
    using assms by (simp add: submitAnswer_def Let_def s1_def)
  then obtain res where
    res: "submitAnswer i p = Inr (Some res, p\<lparr> testSession := Some (adaptLevel s1) \<rparr>)"
    by blast
  have ans: "answers (adaptLevel s1) = answers s @ [a]"
    by (simp add: adaptLevel_answers a(1))
  have lvl: "currentLevel (adaptLevel s1) =
      spec_adaptedLevel (answers (adaptLevel s1)) (currentLevel s)"
    using adaptLevel_currentLevel[of s1] by (simp add: adaptLevel_answers cur)
  from res ans a(2) a(3) lvl show ?thesis by blast
qed

lemma sixthAsked_state:
  "testSession sixthAsked = Some (sessionOf sixthAsked) \<and> questions (sessionOf sixthAsked) \<noteq> []"
  by (simp add: sessionOf_def sixthAsked_def afterFive_def placement_eval)

text \<open>The sixth question of the example run has been asked and is answered.\<close>

theorem adapt_after_every_answer_witness:
  "testSession sixthAsked = Some (sessionOf sixthAsked) \<and>
   questions (sessionOf sixthAsked) \<noteq> [] \<and>
   (\<exists>res s'. submitAnswer 0 sixthAsked = Inr (Some res, sixthAsked\<lparr> testSession := Some s' \<rparr>) \<and>
      length (answers s') = length (answers (sessionOf sixthAsked)) + 1 \<and>
      currentLevel s' = spec_adaptedLevel (answers s') (currentLevel (sessionOf sixthAsked)))"
  using adapt_after_every_answer[of sixthAsked "sessionOf sixthAsked" 0] sixthAsked_state
  by fastforce

text \<open>
  Claim C6 as stated fails: the level is adapted after answers that are not a fifth one.
  In the example run the five answers wrong, wrong, right, right, right at A2 leave the
  level at A2 (accuracy 0.6); the sixth answer, right, makes the last five 4 of 5 right and
  moves the level to B1.
\<close>

theorem adapt_every_fifth_counterexample:
  "length (answers (sessionOf afterFive)) = 5 \<and>
   currentLevel (sessionOf afterFive) = A2 \<and>
   length (answers (sessionOf (askAndAnswer 0 afterFive))) = 6 \<and>
   currentLevel (sessionOf (askAndAnswer 0 afterFive)) = B1"
  by (simp add: sessionOf_def afterFive_def placement_eval)

subsection \<open>Scoring\<close>

lemma all_level: "(\<forall>l. P l) \<longleftrightarrow> P A1 \<and> P A2 \<and> P B1 \<and> P B2 \<and> P C1"
  by (metis level.exhaust)

lemma ex_level: "(\<exists>l. P l) \<longleftrightarrow> P A1 \<or> P A2 \<or> P B1 \<or> P B2 \<or> P C1"
  by (metis level.exhaust)

lemma determineSectionLevel_alt:
  "determineSectionLevel bl = foldl (\<lambda>d l. if qualifies bl l then l else d) A1 levels"
  by (simp add: determineSectionLevel_def qualifies_def)

lemma section_level_highest:
  "((\<exists>l. qualifies bl l) \<longrightarrow>
      qualifies bl (determineSectionLevel bl) \<and>
      (\<forall>l. qualifies bl l \<longrightarrow> level_index l \<le> level_index (determineSectionLevel bl))) \<and>
   ((\<forall>l. \<not> qualifies bl l) \<longrightarrow> determineSectionLevel bl = A1)"
  unfolding determineSectionLevel_alt levels_def all_level ex_level
  by simp

lemma levelCounts_fold:
  "foldl (\<lambda>m l. m(l := m l + 1)) m0 ls = (\<lambda>l. m0 l + count_list ls l)"
  by (induction ls arbitrary: m0) (auto simp: fun_eq_iff)

lemma scanInv_step:
  assumes "scanInv c seen st" and "\<forall>l \<in> set seen. level_index l < level_index x"
  shows "scanInv c (seen @ [x]) (scanStep c st x)"
proof (cases st)
  case (Pair mc rl)
  show ?thesis
  proof (cases "c x > mc")
    case True
    with assms Pair show ?thesis
      by (auto simp: scanInv_def scanStep_def)
  next
    case False
    with assms Pair show ?thesis
      by (auto simp: scanInv_def scanStep_def split: if_splits dest: less_imp_le)
  qed
qed

lemma scanInv_foldl:
  assumes "scanInv c seen st"
    and "sorted_wrt (\<lambda>a b. level_index a < level_index b) (seen @ rest)"
  shows "scanInv c (seen @ rest) (foldl (scanStep c) st rest)"
  using assms
proof (induction rest arbitrary: seen st)
  case Nil
  then show ?case by simp
next
  case (Cons x rest)
  have lt: "\<forall>l \<in> set seen. level_index l < level_index x"
    using Cons.prems(2) by (auto simp: sorted_wrt_append)
  have "scanInv c ((seen @ [x]) @ rest) (foldl (scanStep c) (scanStep c st x) rest)"
    using Cons.prems(2) by (intro Cons.IH scanInv_step[OF Cons.prems(1) lt]) simp
  then show ?case by simp
qed

lemma scan_levels:
  "scanInv c levels (foldl (scanStep c) (0, A1) levels)"
proof -
  have "scanInv c ([] @ levels) (foldl (scanStep c) (0, A1) levels)"
    by (rule scanInv_foldl) (simp_all add: scanInv_def levels_def)
  then show ?thesis by simp
qed

lemma set_levels: "l \<in> set levels"
  by (cases l) (simp_all add: levels_def)

lemma scan_most_frequent:
  assumes "foldl (scanStep c) (0, A1) levels = (mc, m)"
  shows "(\<forall>l. c l \<le> c m) \<and> (\<forall>l. c l = c m \<longrightarrow> level_index m \<le> level_index l)"
proof (cases "mc = 0")
  case True
  with scan_levels[of c] assms have "m = A1" "\<forall>l. c l = 0"
    by (auto simp: scanInv_def set_levels)
  then show ?thesis by simp
next
  case False
  with scan_levels[of c] assms show ?thesis
    by (auto simp: scanInv_def set_levels)
qed

lemma lowest_scan:
  "foldl (\<lambda>mn l. if level_index l < level_index mn then l else mn) a xs \<in> set (a # xs) \<and>
   (\<forall>l \<in> set (a # xs).
      level_index (foldl (\<lambda>mn l. if level_index l < level_index mn then l else mn) a xs)
        \<le> level_index l)"
proof (induction xs arbitrary: a)
  case Nil
  show ?case by simp
next
  case (Cons x xs)
  show ?case
    using Cons.IH[of x] Cons.IH[of a] by (auto simp: not_less)
qed

lemma lowered: "2 \<le> int (level_index m) - int w \<Longrightarrow>
   levels ! nat (max 0 (int (level_index m) - 1)) = level_down m"
  by (cases m) (simp_all add: levels_def)

lemma overall_level:
  assumes "rs \<noteq> []"
  shows "\<exists>m w. spec_mostFrequent (map res_level rs) m \<and> spec_weakest (map res_level rs) w \<and>
     calculateOverallLevel rs = (if level_index w + 2 \<le> level_index m then level_down m else m)"
proof -
  define ls where "ls = map res_level rs"
  have ne: "ls \<noteq> []" using assms by (simp add: ls_def)
  obtain mc m where scan: "foldl (scanStep (count_list ls)) (0, A1) levels = (mc, m)"
    by (cases "foldl (scanStep (count_list ls)) (0, A1) levels") auto
  define w where "w = foldl (\<lambda>mn l. if level_index l < level_index mn then l else mn) (hd ls) (tl ls)"
  have counts: "foldl (\<lambda>m l. m(l := m l + 1)) (\<lambda>_. 0 :: nat) ls = count_list ls"
    using levelCounts_fold[of "\<lambda>_. 0" ls] by simp
  have mf: "(\<forall>l. count_list ls l \<le> count_list ls m) \<and>
      (\<forall>l. count_list ls l = count_list ls m \<longrightarrow> level_index m \<le> level_index l)"
    using scan by (rule scan_most_frequent)
  have "0 < count_list ls (hd ls)"
    using ne by (cases ls) simp_all
  with mf have "0 < count_list ls m"
    by (metis less_le_trans)
  then have m_in: "m \<in> set ls"
    by (simp add: count_list_0_iff zero_less_iff_neq_zero)
  have "w \<in> set (hd ls # tl ls) \<and> (\<forall>l \<in> set (hd ls # tl ls). level_index w \<le> level_index l)"
    unfolding w_def by (rule lowest_scan)
  then have wk: "spec_weakest ls w"
    using ne by (simp add: spec_weakest_def)
  have res: "calculateOverallLevel rs =
      (if 2 \<le> int (level_index m) - int (level_index w)
       then levels ! nat (max 0 (int (level_index m) - 1)) else m)"
    using ne scan
    unfolding calculateOverallLevel_def Let_def ls_def[symmetric] counts w_def[symmetric]
      scanStep_def[symmetric]
    by simp
  have "calculateOverallLevel rs =
      (if level_index w + 2 \<le> level_index m then level_down m else m)"
  proof (cases "2 \<le> int (level_index m) - int (level_index w)")
    case True
    then show ?thesis using res lowered[of m "level_index w"] by simp
  next
    case False
    then show ?thesis using res by simp
  qed
  then show ?thesis
    using mf m_in wk unfolding ls_def spec_mostFrequent_def by blast
qed

lemma finish_levels:
  "map (\<lambda>(sec, r). res_level r) (sectionResults (fst (finishTest now s))) =
     map (\<lambda>sec. determineSectionLevel (byLevel (sectionScores s sec))) sections \<and>
   overallLevel (fst (finishTest now s)) =
     calculateOverallLevel (map snd (sectionResults (fst (finishTest now s))))"
  by (simp add: finishTest_def Let_def comp_def)

text \<open>
  Claim C7. A section's level is the highest level that qualifies (accuracy at least 0.6
  over at least 2 attempted questions), and A1 when none does. The overall level is the
  most frequent section level, the lowest one on a tie, lowered by one level when the
  weakest section level lies at least 2 levels below it. \<open>finishTest\<close> computes the section
  levels and the overall level by these two functions.
\<close>

theorem placement_scoring:
  "((\<exists>l. qualifies bl l) \<longrightarrow>
      qualifies bl (determineSectionLevel bl) \<and>
      (\<forall>l. qualifies bl l \<longrightarrow> level_index l \<le> level_index (determineSectionLevel bl))) \<and>
   ((\<forall>l. \<not> qualifies bl l) \<longrightarrow> determineSectionLevel bl = A1) \<and>
   (rs \<noteq> [] \<longrightarrow>
      (\<exists>m w. spec_mostFrequent (map res_level rs) m \<and> spec_weakest (map res_level rs) w \<and>
         calculateOverallLevel rs =
           (if level_index w + 2 \<le> level_index m then level_down m else m))) \<and>
   map (\<lambda>(sec, r). res_level r) (sectionResults (fst (finishTest now s))) =
     map (\<lambda>sec. determineSectionLevel (byLevel (sectionScores s sec))) sections \<and>
   overallLevel (fst (finishTest now s)) =
     calculateOverallLevel (map snd (sectionResults (fst (finishTest now s))))"
  using section_level_highest[of bl] overall_level[of rs] finish_levels[of now s] by blast

text \<open>
  Scores qualifying at A1, A2 and B1 give B1, empty scores give A1; section levels B1, B1,
  B2, A1 give A2 (B1 lowered for the weak A1), and B2, B2, B1, B1 give B1 (the tie).
\<close>

theorem placement_scoring_witness:
  "qualifies exampleByLevel B1 \<and> determineSectionLevel exampleByLevel = B1 \<and>
   \<not> qualifies (\<lambda>_. \<lparr> ls_correct = 0, ls_total = 0 \<rparr>) C1 \<and>
   determineSectionLevel (\<lambda>_. \<lparr> ls_correct = 0, ls_total = 0 \<rparr>) = A1 \<and>
   map resultAt [B1, B1, B2, A1] \<noteq> [] \<and>
   calculateOverallLevel (map resultAt [B1, B1, B2, A1]) = A2 \<and>
   calculateOverallLevel (map resultAt [B2, B2, B1, B1]) = B1"
  using placement_scoring[of exampleByLevel "map resultAt [B1, B1, B2, A1]" 0 "newSession 0"]
    placement_scoring[of "\<lambda>_. \<lparr> ls_correct = 0, ls_total = 0 \<rparr>" "map resultAt [B2, B2, B1, B1]" 0
      "newSession 0"]
  by (simp add: qualifies_def exampleByLevel_def determineSectionLevel_def levels_def
      calculateOverallLevel_def resultAt_def Let_def)


end
